theory Spec2Isabelle
  imports Main "HOL-Library.Word"
begin

unbundle bit_operations_syntax

section \<open>Results, faults and the platform\<close>

text \<open>
  The provider in \<^verbatim>\<open>Shell.c\<close> reports every outcome as an \<^verbatim>\<open>MI_Result\<close>. The
  compression library reports an \<^verbatim>\<open>NTSTATUS\<close>; the code distinguishes success,
  \<^verbatim>\<open>STATUS_BUFFER_TOO_SMALL\<close> and everything else.
\<close>

datatype MI_Result =
    MI_RESULT_OK
  | MI_RESULT_FAILED
  | MI_RESULT_INVALID_PARAMETER
  | MI_RESULT_NOT_FOUND
  | MI_RESULT_NOT_SUPPORTED
  | MI_RESULT_ALREADY_EXISTS
  | MI_RESULT_SERVER_LIMITS_EXCEEDED

datatype NTSTATUS = STATUS_SUCCESS | STATUS_BUFFER_TOO_SMALL | STATUS_UNSUCCESSFUL

text \<open>
  C has no exceptions, but it has undefined behaviour. Where the source dereferences a
  pointer that is null on that path, or reads an entry of the stream table that does
  not exist, the model stops with a \<open>fault\<close> instead of inventing a value.
\<close>

datatype fault = NullDereference | ReadOutsideBuffer

datatype 'a outcome = Faulted fault | Failed MI_Result | Returned 'a

type_synonym byte = "8 word"
type_synonym USHORT = "16 word"

text \<open>
  Everything \<^verbatim>\<open>Shell.c\<close> calls but does not define is a field of the platform: the
  allocator, the two sizes that come from \<^verbatim>\<open>MI.h\<close> (\<^verbatim>\<open>sizeof(MI_Char)\<close> and
  \<^verbatim>\<open>sizeof(MI_T('='))\<close>), the base64 library and the Xpress-Huffman library.
  \<^item> \<open>malloc_ok n\<close>: whether an allocation of \<open>n\<close> bytes returns a non-null pointer.
  \<^item> \<open>unwritten n i\<close>: the byte found at offset \<open>i\<close> of a buffer of \<open>n\<close> bytes at a
    place the code has not written: the tail of an allocation, and what lies behind it.
  \<^item> \<open>Base64Dec buf n\<close>, \<open>Base64Enc buf n\<close>: the blocks of output the library hands to
    its callback, in order; \<open>None\<close> when the library itself rejects the input.
  \<^item> \<open>RtlCompressWorkSpaceSizeXpressHuff\<close>: the status and the two workspace sizes.
  \<^item> \<open>RtlCompressBufferProgress src cap\<close>, \<open>RtlDecompressBufferProgress src cap\<close>:
    the status and the bytes written to a destination of capacity \<open>cap\<close>.
  \<^item> \<open>post_instance c\<close>: what posting an instance on the context \<open>c\<close> returns.
  \<^item> \<open>MI_accepts_null_context\<close>: whether the constructors and the post function of the
    management layer (\<^verbatim>\<open>CommandState_Construct\<close>, \<^verbatim>\<open>Stream_Construct\<close>,
    \<^verbatim>\<open>Shell_Receive_Construct\<close>, \<^verbatim>\<open>Shell_Receive_Post\<close>) return when they are handed
    a null context; when they do not, the call goes through the null pointer.
  \<^item> \<open>Shell_Command_Clone\<close>: what cloning the command instance returns.
  \<^item> \<open>calloc_CommandData\<close>: the address of the block \<^verbatim>\<open>calloc\<close> returns for a command
    (\<open>None\<close>: a null pointer); \<open>sizeof_CommandData\<close>: the size of the structure, after
    which the command id is stored.
\<close>

record platform =
  malloc_ok :: "nat \<Rightarrow> bool"
  unwritten :: "nat \<Rightarrow> nat \<Rightarrow> byte"
  sizeof_MI_Char :: nat
  sizeof_MI_T :: nat
  Base64Dec :: "byte list \<Rightarrow> nat \<Rightarrow> byte list list option"
  Base64Enc :: "byte list \<Rightarrow> nat \<Rightarrow> byte list list option"
  RtlCompressWorkSpaceSizeXpressHuff :: "NTSTATUS \<times> nat \<times> nat"
  RtlCompressBufferProgress :: "byte list \<Rightarrow> nat \<Rightarrow> NTSTATUS \<times> byte list"
  RtlDecompressBufferProgress :: "byte list \<Rightarrow> nat \<Rightarrow> NTSTATUS \<times> byte list"
  post_instance :: "nat \<Rightarrow> MI_Result"
  MI_accepts_null_context :: bool
  Shell_Command_Clone :: MI_Result
  calloc_CommandData :: "nat option"
  sizeof_CommandData :: nat

section \<open>Buffers\<close>

text \<open>
  \<^verbatim>\<open>DecodeBuffer\<close>: \<open>buffer\<close> holds the bytes that have been written at the pointer,
  \<open>bufferLength\<close> is the size of the allocation and \<open>bufferUsed\<close> the number of bytes
  in use. A fresh allocation has no written bytes. Both counters are \<^verbatim>\<open>MI_Uint32\<close>: a value stored into them is reduced modulo
  \<open>2 ^ 32\<close>.
\<close>

record DecodeBuffer =
  buffer :: "byte list"
  bufferLength :: nat
  bufferUsed :: nat

definition MI_Uint32 :: "nat \<Rightarrow> nat" where
  "MI_Uint32 n = n mod 2 ^ 32"

text \<open>\<^verbatim>\<open>memcpy(dst + off, data, size)\<close> on the bytes written so far.\<close>

definition memcpy :: "byte list \<Rightarrow> nat \<Rightarrow> byte list \<Rightarrow> byte list" where
  "memcpy dst off data = take off dst @ data @ drop (off + length data) dst"

subsection \<open>Base64 framing\<close>

definition Shell_Base64Dec_Callback :: "byte list \<Rightarrow> DecodeBuffer \<Rightarrow> int \<times> DecodeBuffer" where
  "Shell_Base64Dec_Callback data thisBuffer =
     (if bufferUsed thisBuffer + length data > bufferLength thisBuffer then (- 1, thisBuffer)
      else (0, thisBuffer\<lparr>buffer := memcpy (buffer thisBuffer) (bufferUsed thisBuffer) data,
                          bufferUsed := bufferUsed thisBuffer + length data\<rparr>))"

definition Shell_Base64Enc_Callback :: "byte list \<Rightarrow> DecodeBuffer \<Rightarrow> int \<times> DecodeBuffer" where
  "Shell_Base64Enc_Callback data thisBuffer =
     (if bufferUsed thisBuffer + length data > bufferLength thisBuffer then (- 1, thisBuffer)
      else (0, thisBuffer\<lparr>buffer := memcpy (buffer thisBuffer) (bufferUsed thisBuffer) data,
                          bufferUsed := bufferUsed thisBuffer + length data\<rparr>))"

text \<open>
  The library side of \<^verbatim>\<open>Base64Dec\<close> and \<^verbatim>\<open>Base64Enc\<close>: each block is passed to the
  callback, and the call returns \<open>-1\<close> as soon as the callback does.
\<close>

fun deliver :: "(byte list \<Rightarrow> DecodeBuffer \<Rightarrow> int \<times> DecodeBuffer) \<Rightarrow> byte list list
    \<Rightarrow> DecodeBuffer \<Rightarrow> int \<times> DecodeBuffer" where
  "deliver callback [] b = (0, b)"
| "deliver callback (d # ds) b =
     (case callback d b of (r, b') \<Rightarrow> if r \<noteq> 0 then (- 1, b') else deliver callback ds b')"

definition Base64DecodeBuffer :: "platform \<Rightarrow> DecodeBuffer \<Rightarrow> DecodeBuffer outcome" where
  "Base64DecodeBuffer p fromBuffer =
     (let toBuffer = \<lparr>buffer = [], bufferLength = bufferUsed fromBuffer, bufferUsed = 0\<rparr>
      in if \<not> malloc_ok p (bufferLength toBuffer) then Failed MI_RESULT_SERVER_LIMITS_EXCEEDED
         else case Base64Dec p (buffer fromBuffer) (bufferLength fromBuffer) of
                None \<Rightarrow> Failed MI_RESULT_FAILED
              | Some blocks \<Rightarrow>
                  (case deliver Shell_Base64Dec_Callback blocks toBuffer of
                     (r, toBuffer') \<Rightarrow>
                       if r = - 1 then Failed MI_RESULT_FAILED else Returned toBuffer'))"

text \<open>
  The size \<^verbatim>\<open>Base64EncodeBuffer\<close> allocates:
  \<^verbatim>\<open>((bufferUsed * 4) / 3) + sizeof(MI_Char) + (sizeof(MI_T('=')) * 2)\<close>. The product is
  formed in \<^verbatim>\<open>MI_Uint32\<close>, the division is C's integer division, and the sum is stored
  into the \<^verbatim>\<open>MI_Uint32\<close> field.
\<close>

definition Base64Enc_bufferLength :: "platform \<Rightarrow> nat \<Rightarrow> nat" where
  "Base64Enc_bufferLength p n =
     MI_Uint32 (MI_Uint32 (n * 4) div 3 + sizeof_MI_Char p + sizeof_MI_T p * 2)"

definition Base64EncodeBuffer :: "platform \<Rightarrow> DecodeBuffer \<Rightarrow> DecodeBuffer outcome" where
  "Base64EncodeBuffer p fromBuffer =
     (let toBuffer = \<lparr>buffer = [],
                      bufferLength = Base64Enc_bufferLength p (bufferUsed fromBuffer),
                      bufferUsed = 0\<rparr>
      in if \<not> malloc_ok p (bufferLength toBuffer) then Failed MI_RESULT_SERVER_LIMITS_EXCEEDED
         else case Base64Enc p (buffer fromBuffer) (bufferUsed fromBuffer) of
                None \<Rightarrow> Failed MI_RESULT_FAILED
              | Some blocks \<Rightarrow>
                  (case deliver Shell_Base64Enc_Callback blocks toBuffer of
                     (r, toBuffer') \<Rightarrow>
                       if r = - 1 then Failed MI_RESULT_FAILED
                       else if MI_Uint32 (bufferLength toBuffer' + 2 ^ 32 - bufferUsed toBuffer')
                                 < sizeof_MI_Char p
                       then Failed MI_RESULT_FAILED
                       else Returned toBuffer'))"

subsection \<open>Chunked compression\<close>

text \<open>
  The code reads its source buffers through plain pointers and never checks them
  against the allocation. A read of a byte that has been written returns that byte;
  a read anywhere else returns what the platform holds there.
\<close>

definition memory :: "platform \<Rightarrow> DecodeBuffer \<Rightarrow> nat \<Rightarrow> byte" where
  "memory p b i =
     (if i < length (buffer b) then buffer b ! i else unwritten p (bufferLength b) i)"

definition read_bytes :: "platform \<Rightarrow> DecodeBuffer \<Rightarrow> nat \<Rightarrow> nat \<Rightarrow> byte list" where
  "read_bytes p b off n = map (memory p b) [off..<off + n]"

text \<open>
  \<^verbatim>\<open>CompressionHeader\<close> is two \<^verbatim>\<open>USHORT\<close>s that the code reads and writes through a
  pointer cast; the bytes are laid out least significant first, as on the x86 and ARM
  targets of the provider.
\<close>

record CompressionHeader =
  originalSize :: USHORT
  compressedSize :: USHORT

definition sizeof_CompressionHeader :: nat where
  "sizeof_CompressionHeader = 4"

definition USHORT_bytes :: "USHORT \<Rightarrow> byte list" where
  "USHORT_bytes w = [ucast w, ucast (drop_bit 8 w)]"

definition USHORT_at :: "platform \<Rightarrow> DecodeBuffer \<Rightarrow> nat \<Rightarrow> USHORT" where
  "USHORT_at p b i = ucast (memory p b i) OR push_bit 8 (ucast (memory p b (i + 1)))"

definition header_bytes :: "CompressionHeader \<Rightarrow> byte list" where
  "header_bytes h = USHORT_bytes (originalSize h) @ USHORT_bytes (compressedSize h)"

definition header_at :: "platform \<Rightarrow> DecodeBuffer \<Rightarrow> nat \<Rightarrow> CompressionHeader" where
  "header_at p b i = \<lparr>originalSize = USHORT_at p b i, compressedSize = USHORT_at p b (i + 2)\<rparr>"

text \<open>
  \<^verbatim>\<open>CalculateTotalUncompressedSize\<close> walks the headers up to \<open>bufferLength\<close> (not
  \<open>bufferUsed\<close>), so behind the bytes in use it adds up whatever the rest of the
  allocation holds. The sum is a \<^verbatim>\<open>ULONG\<close>; it is reduced modulo \<open>2 ^ 32\<close> where
  \<^verbatim>\<open>DecompressBuffer\<close> stores it into \<open>bufferLength\<close>.
\<close>

function CalculateTotalUncompressedSize_loop ::
    "platform \<Rightarrow> DecodeBuffer \<Rightarrow> nat \<Rightarrow> nat \<Rightarrow> nat" where
  "CalculateTotalUncompressedSize_loop p compressedBuffer bufferCursor currentSize =
     (if bufferCursor < bufferLength compressedBuffer then
        (let header = header_at p compressedBuffer bufferCursor
         in CalculateTotalUncompressedSize_loop p compressedBuffer
              (bufferCursor + (unat (compressedSize header) + 1) + sizeof_CompressionHeader)
              (currentSize + (unat (originalSize header) + 1)))
      else currentSize)"
  by pat_completeness auto
termination
  by (relation "measure (\<lambda>(p, b, c, s). bufferLength b - c)")
     (auto simp: sizeof_CompressionHeader_def)

declare CalculateTotalUncompressedSize_loop.simps [simp del]

definition CalculateTotalUncompressedSize :: "platform \<Rightarrow> DecodeBuffer \<Rightarrow> nat" where
  "CalculateTotalUncompressedSize p compressedBuffer =
     CalculateTotalUncompressedSize_loop p compressedBuffer 0 0"

text \<open>
  The loop of \<^verbatim>\<open>DecompressBuffer\<close>. \<open>fromBufferCursor\<close> is an offset into the source
  buffer, \<open>toBuffer\<close> the destination so far. The sizes the code uses are the header
  fields plus one; \<^verbatim>\<open>USHORT\<close> promotes to \<^verbatim>\<open>int\<close>, so the increment does not wrap.
\<close>

function DecompressBuffer_loop ::
    "platform \<Rightarrow> DecodeBuffer \<Rightarrow> nat \<Rightarrow> DecodeBuffer \<Rightarrow> DecodeBuffer outcome" where
  "DecompressBuffer_loop p fromBuffer fromBufferCursor toBuffer =
     (if fromBufferCursor < bufferUsed fromBuffer then
        (let compressionHeader = header_at p fromBuffer fromBufferCursor;
             origPlus1 = unat (originalSize compressionHeader) + 1;
             compPlus1 = unat (compressedSize compressionHeader) + 1;
             payload = fromBufferCursor + sizeof_CompressionHeader
         in if MI_Uint32 (bufferUsed toBuffer + origPlus1) > bufferLength toBuffer
            then Failed MI_RESULT_FAILED
            else if originalSize compressionHeader = compressedSize compressionHeader then
              DecompressBuffer_loop p fromBuffer (payload + compPlus1)
                (toBuffer\<lparr>buffer := memcpy (buffer toBuffer) (bufferUsed toBuffer)
                             (read_bytes p fromBuffer payload origPlus1),
                           bufferUsed := MI_Uint32 (bufferUsed toBuffer + origPlus1)\<rparr>)
            else
              (case RtlDecompressBufferProgress p
                      (read_bytes p fromBuffer payload compPlus1) origPlus1 of
                 (status, written) \<Rightarrow>
                   if status \<noteq> STATUS_SUCCESS then Failed MI_RESULT_FAILED
                   else DecompressBuffer_loop p fromBuffer (payload + compPlus1)
                          (toBuffer\<lparr>buffer := memcpy (buffer toBuffer)
                                       (bufferUsed toBuffer) written,
                                     bufferUsed := MI_Uint32 (bufferUsed toBuffer
                                                              + length written)\<rparr>)))
      else Returned toBuffer)"
  by pat_completeness auto
termination
  by (relation "measure (\<lambda>(p, f, c, t). bufferUsed f - c)")
     (auto simp: sizeof_CompressionHeader_def)

declare DecompressBuffer_loop.simps [simp del]

definition DecompressBuffer :: "platform \<Rightarrow> DecodeBuffer \<Rightarrow> DecodeBuffer outcome" where
  "DecompressBuffer p fromBuffer =
     (case RtlCompressWorkSpaceSizeXpressHuff p of
        (status, wsCompressSize, wsDecompressSize) \<Rightarrow>
          if status \<noteq> STATUS_SUCCESS then Failed MI_RESULT_FAILED
          else if \<not> malloc_ok p wsDecompressSize then Failed MI_RESULT_SERVER_LIMITS_EXCEEDED
          else (let totalSize = MI_Uint32 (CalculateTotalUncompressedSize p fromBuffer)
                in if \<not> malloc_ok p totalSize then Failed MI_RESULT_SERVER_LIMITS_EXCEEDED
                   else DecompressBuffer_loop p fromBuffer 0
                          \<lparr>buffer = [], bufferLength = totalSize, bufferUsed = 0\<rparr>))"

definition MAX_COMPRESS_BUFFER_BLOCK :: nat where
  "MAX_COMPRESS_BUFFER_BLOCK = 64 * 1024"

text \<open>
  The loop of \<^verbatim>\<open>CompressBuffer\<close>. The library is given the chunk and a destination of
  the chunk's own size; on \<^verbatim>\<open>STATUS_BUFFER_TOO_SMALL\<close> the chunk is stored as it is.
  Both header fields are assigned the size minus one, converted to \<^verbatim>\<open>USHORT\<close>.
\<close>

function CompressBuffer_loop ::
    "platform \<Rightarrow> DecodeBuffer \<Rightarrow> nat \<Rightarrow> DecodeBuffer \<Rightarrow> DecodeBuffer outcome" where
  "CompressBuffer_loop p fromBuffer fromBufferCursor toBuffer =
     (if fromBufferCursor < bufferUsed fromBuffer then
        (let chunkSize = min (bufferUsed fromBuffer - fromBufferCursor) MAX_COMPRESS_BUFFER_BLOCK
         in if bufferUsed toBuffer + chunkSize + sizeof_CompressionHeader > bufferLength toBuffer
            then Failed MI_RESULT_FAILED
            else let chunk = read_bytes p fromBuffer fromBufferCursor chunkSize
                 in case RtlCompressBufferProgress p chunk chunkSize of
                      (status, written) \<Rightarrow>
                        if status \<noteq> STATUS_BUFFER_TOO_SMALL \<and> status \<noteq> STATUS_SUCCESS
                        then Failed MI_RESULT_FAILED
                        else let stored = (if status = STATUS_BUFFER_TOO_SMALL then chunk
                                           else written);
                                 actualToChunkSize = length stored;
                                 compressionHeader =
                                   \<lparr>originalSize = word_of_nat chunkSize - 1,
                                    compressedSize = word_of_nat actualToChunkSize - 1\<rparr>
                             in CompressBuffer_loop p fromBuffer (fromBufferCursor + chunkSize)
                                  (toBuffer\<lparr>buffer := memcpy (buffer toBuffer) (bufferUsed toBuffer)
                                               (header_bytes compressionHeader @ stored),
                                             bufferUsed := MI_Uint32 (bufferUsed toBuffer
                                               + sizeof_CompressionHeader + actualToChunkSize)\<rparr>))
      else Returned toBuffer)"
  by pat_completeness auto
termination
  by (relation "measure (\<lambda>(p, f, c, t). bufferUsed f - c)")
     (auto simp: MAX_COMPRESS_BUFFER_BLOCK_def)

declare CompressBuffer_loop.simps [simp del]

definition CompressBuffer :: "platform \<Rightarrow> DecodeBuffer \<Rightarrow> nat \<Rightarrow> DecodeBuffer outcome" where
  "CompressBuffer p fromBuffer extraSpaceToAllocate =
     (let toBufferMaxNumChunks =
            bufferUsed fromBuffer div MAX_COMPRESS_BUFFER_BLOCK
            + (if bufferUsed fromBuffer mod MAX_COMPRESS_BUFFER_BLOCK \<noteq> 0 then 1 else 0);
          toBuffer = \<lparr>buffer = [],
                      bufferLength = MI_Uint32 (sizeof_CompressionHeader * toBufferMaxNumChunks
                                       + bufferUsed fromBuffer + extraSpaceToAllocate),
                      bufferUsed = 0\<rparr>
      in if \<not> malloc_ok p (bufferLength toBuffer) then Failed MI_RESULT_SERVER_LIMITS_EXCEEDED
         else case RtlCompressWorkSpaceSizeXpressHuff p of
                (status, wsCompressSize, wsDecompressSize) \<Rightarrow>
                  if status \<noteq> STATUS_SUCCESS then Failed MI_RESULT_FAILED
                  else if \<not> malloc_ok p wsCompressSize then Failed MI_RESULT_SERVER_LIMITS_EXCEEDED
                  else CompressBuffer_loop p fromBuffer 0 toBuffer)"

section \<open>Sessions\<close>

text \<open>
  \<^verbatim>\<open>StreamData\<close>, \<^verbatim>\<open>CommandData\<close> and \<^verbatim>\<open>ShellData\<close>, with the fields the operations
  below read or write. A null pointer is \<open>None\<close>. \<open>outboundStreamNamesCount\<close> is the
  length of \<open>outboundStreamNames\<close>. The field \<^verbatim>\<open>done\<close> is named \<open>streamDone\<close> here.
  An \<^verbatim>\<open>MI_Context*\<close> is a token.
\<close>

type_synonym MI_Context = nat

record StreamData =
  streamName :: string
  streamDone :: bool

record CommandData =
  commandId :: string
  outboundStreams :: "StreamData list"
  commandContext :: "MI_Context option"
  receiveContext :: "MI_Context option"

record ShellData =
  shellId :: string
  command :: "CommandData option"
  outboundStreamNames :: "string list"
  isCompressed :: bool

record Shell_Self =
  shellList :: "ShellData list"

text \<open>The C library's string comparison: zero exactly when the strings are equal.\<close>

fun Tcscmp :: "string \<Rightarrow> string \<Rightarrow> int" where
  "Tcscmp [] [] = 0"
| "Tcscmp [] (y # ys) = - 1"
| "Tcscmp (x # xs) [] = 1"
| "Tcscmp (x # xs) (y # ys) =
     (if x = y then Tcscmp xs ys
      else if (of_char x :: nat) < of_char y then - 1 else 1)"

text \<open>
  \<^verbatim>\<open>FindShell\<close> returns a pointer into the list of shells; the model returns the
  position of that shell, and the callers read and update the list at this position.
\<close>

fun FindShell_loop :: "ShellData list \<Rightarrow> string \<Rightarrow> nat \<Rightarrow> nat option" where
  "FindShell_loop [] shellId' i = None"
| "FindShell_loop (thisShell # nextShell) shellId' i =
     (if Tcscmp shellId' (shellId thisShell) \<noteq> 0 then FindShell_loop nextShell shellId' (i + 1)
      else Some i)"

definition FindShell :: "Shell_Self \<Rightarrow> string \<Rightarrow> nat option" where
  "FindShell shell shellId' = FindShell_loop (shellList shell) shellId' 0"

definition set_command :: "Shell_Self \<Rightarrow> nat \<Rightarrow> CommandData option \<Rightarrow> Shell_Self" where
  "set_command self i c =
     self\<lparr>shellList := (shellList self)[i := (shellList self ! i)\<lparr>command := c\<rparr>]\<rparr>"

subsection \<open>What the provider sends out\<close>

datatype CommandState_state = CommandState_Running | CommandState_Done

record CommandState =
  CommandState_commandId :: "string option"
  CommandState_state :: CommandState_state

record Stream =
  Stream_commandId :: "string option"
  Stream_streamName :: "string option"
  Stream_endOfStream :: "bool option"

record Shell_Receive =
  Receive_MIReturn :: MI_Result
  Receive_CommandState :: "CommandState option"
  Receive_Stream :: "Stream option"

text \<open>
  The calls that leave the provider. \<open>Shell_Receive_Post\<close> carries the context it was
  given, which in \<^verbatim>\<open>Shell_Invoke_Send\<close> may be the null pointer. The last two
  arguments of \<^verbatim>\<open>WSMAN_PLUGIN_SEND\<close> (\<^verbatim>\<open>streamName\<close>, \<^verbatim>\<open>inboundData\<close>) are not
  declared anywhere in the file, so the event records the call and nothing of what it
  passes.
\<close>

datatype event =
    MI_Context_PostResult MI_Context MI_Result
  | Shell_Receive_Post "MI_Context option" Shell_Receive
  | Shell_Send_Post MI_Context MI_Result
  | Shell_Signal_Post MI_Context MI_Result
  | WSMAN_PLUGIN_COMMAND
  | WSMAN_PLUGIN_SEND
  | WSMAN_PLUGIN_RECEIVE

type_synonym reply = "fault + event list \<times> Shell_Self"

subsection \<open>Shell_Invoke_Command\<close>

text \<open>\<^verbatim>\<open>Stprintf(..., "%llx", ...)\<close>: lower-case hexadecimal without leading zeros.\<close>

definition hex_digit :: "nat \<Rightarrow> char" where
  "hex_digit d = ''0123456789abcdef'' ! d"

function llx :: "nat \<Rightarrow> string" where
  "llx n = (if n < 16 then [hex_digit n] else llx (n div 16) @ [hex_digit (n mod 16)])"
  by pat_completeness auto
termination
  by (relation "measure (\<lambda>n. n)") auto

declare llx.simps [simp del]

text \<open>
  Every \<^verbatim>\<open>GOTO_ERROR\<close> of \<^verbatim>\<open>Shell_Invoke_Command\<close> lands on the clean-up at the
  label \<^verbatim>\<open>error\<close>, which reads \<^verbatim>\<open>thisShell->command->commandInstance\<close>, frees
  \<^verbatim>\<open>thisShell->command\<close> and sets it to null before it posts the result. With no shell,
  or with no command allocated, that read goes through a null pointer. The new command
  stores the caller's context in \<open>receiveContext\<close>, as the source does. On success
  nothing is posted: the result is left to the plug-in's callback.
\<close>

definition Shell_Invoke_Command :: "platform \<Rightarrow> Shell_Self \<Rightarrow> MI_Context \<Rightarrow> string \<Rightarrow> reply" where
  "Shell_Invoke_Command p self context instanceName =
     (case FindShell self instanceName of
        None \<Rightarrow> Inl NullDereference
      | Some i \<Rightarrow>
          (let thisShell = shellList self ! i
           in if command thisShell \<noteq> None
              then Inr ([MI_Context_PostResult context MI_RESULT_ALREADY_EXISTS],
                        set_command self i None)
              else case calloc_CommandData p of
                     None \<Rightarrow> Inl NullDereference
                   | Some block \<Rightarrow>
                       (let newCommand =
                              \<lparr>commandId = llx ((block + sizeof_CommandData p) mod 2 ^ 64),
                               outboundStreams =
                                 map (\<lambda>n. \<lparr>streamName = n, streamDone = False\<rparr>)
                                     (outboundStreamNames thisShell),
                               commandContext = None,
                               receiveContext = Some context\<rparr>
                        in if Shell_Command_Clone p \<noteq> MI_RESULT_OK
                           then Inr ([MI_Context_PostResult context (Shell_Command_Clone p)],
                                     set_command self i None)
                           else Inr ([WSMAN_PLUGIN_COMMAND],
                                     set_command self i (Some newCommand)))))"

subsection \<open>Shell_Invoke_Send\<close>

text \<open>What the call receives in \<^verbatim>\<open>in->streamData.value\<close>.\<close>

record streamData =
  in_commandId :: "string option"
  in_streamName :: string
  in_endOfStream :: bool
  in_data :: "byte list option"
  in_dataLength :: nat

text \<open>
  The loop that records the end of a stream:
  \<^verbatim>\<open>for (i = 0; i != count; i++) if (Tcscmp(name, streams[i].streamName)) { streams[i].done = MI_TRUE; break; }\<close>.
  The condition is the value of \<^verbatim>\<open>Tcscmp\<close> itself, which is non-zero when the names
  differ.
\<close>

function Send_mark_done :: "string \<Rightarrow> nat \<Rightarrow> nat \<Rightarrow> StreamData list \<Rightarrow> fault + StreamData list" where
  "Send_mark_done name count i streams =
     (if i \<noteq> count then
        (if length streams \<le> i then Inl ReadOutsideBuffer
         else if Tcscmp name (streamName (streams ! i)) \<noteq> 0
              then Inr (streams[i := (streams ! i)\<lparr>streamDone := True\<rparr>])
              else Send_mark_done name count (i + 1) streams)
      else Inr streams)"
  by pat_completeness auto
termination
  by (relation "measure (\<lambda>(n, c, i, s). length s - i)") auto

declare Send_mark_done.simps [simp del]

text \<open>
  The block under \<^verbatim>\<open>if (in->streamData.value->data.exists)\<close>: base64-decode, then
  decompress when the shell is compressed. \<open>Returned None\<close> when there is no data.
\<close>

definition Send_decode :: "platform \<Rightarrow> ShellData \<Rightarrow> streamData \<Rightarrow> DecodeBuffer option outcome" where
  "Send_decode p thisShell streamData' =
     (case in_data streamData' of
        None \<Rightarrow> Returned None
      | Some d \<Rightarrow>
          (let decodeBuffer = \<lparr>buffer = d,
                               bufferLength = MI_Uint32 (in_dataLength streamData' * sizeof_MI_Char p),
                               bufferUsed = MI_Uint32 (in_dataLength streamData' * sizeof_MI_Char p)\<rparr>
           in case Base64DecodeBuffer p decodeBuffer of
                Faulted f \<Rightarrow> Faulted f
              | Failed r \<Rightarrow> Failed r
              | Returned decodedBuffer \<Rightarrow>
                  if isCompressed thisShell then
                    (case DecompressBuffer p decodedBuffer of
                       Faulted f \<Rightarrow> Faulted f
                     | Failed r \<Rightarrow> Failed r
                     | Returned b \<Rightarrow> Returned (Some b))
                  else Returned (Some decodedBuffer)))"

text \<open>
  The tail of \<^verbatim>\<open>Shell_Invoke_Send\<close> from the label \<^verbatim>\<open>error\<close>: the claimed receive
  context, when there is one, gets the result; the caller gets \<^verbatim>\<open>Shell_Send\<close> when the
  result is \<^verbatim>\<open>MI_RESULT_OK\<close>, and the result in every case.
\<close>

definition Send_finish :: "MI_Context \<Rightarrow> MI_Context option \<Rightarrow> MI_Result \<Rightarrow> event list" where
  "Send_finish context receiveContext' miResult =
     (case receiveContext' of None \<Rightarrow> [] | Some rc \<Rightarrow> [MI_Context_PostResult rc miResult])
     @ (if miResult = MI_RESULT_OK then [Shell_Send_Post context MI_RESULT_OK] else [])
     @ [MI_Context_PostResult context miResult]"

text \<open>
  \<^verbatim>\<open>Shell_Invoke_Send\<close>. Once the shell and the command are found, the receive context
  is taken out of the command, whether or not there is one, and handed to
  \<^verbatim>\<open>CommandState_Construct\<close>, \<^verbatim>\<open>Stream_Construct\<close>, \<^verbatim>\<open>Shell_Receive_Construct\<close> and
  \<^verbatim>\<open>Shell_Receive_Post\<close>; only \<^verbatim>\<open>MI_Context_PostResult\<close> is guarded by
  \<^verbatim>\<open>if (receiveContext)\<close>. What those four do with a null context is the platform's.
\<close>

definition Shell_Invoke_Send :: "platform \<Rightarrow> Shell_Self \<Rightarrow> MI_Context \<Rightarrow> string \<Rightarrow> streamData \<Rightarrow> reply" where
  "Shell_Invoke_Send p self context instanceName streamData' =
     (case FindShell self instanceName of
        None \<Rightarrow> Inr (Send_finish context None MI_RESULT_NOT_FOUND, self)
      | Some i \<Rightarrow>
          (let thisShell = shellList self ! i
           in case in_commandId streamData' of
                None \<Rightarrow> Inr (Send_finish context None MI_RESULT_NOT_SUPPORTED, self)
              | Some cid \<Rightarrow>
                  (case command thisShell of
                     None \<Rightarrow> Inl NullDereference
                   | Some cmd \<Rightarrow>
                       if Tcscmp cid (commandId cmd) \<noteq> 0
                       then Inr (Send_finish context None MI_RESULT_NOT_FOUND, self)
                       else if receiveContext cmd = None \<and> \<not> MI_accepts_null_context p
                       then Inl NullDereference
                       else
                         (let receiveContext' = receiveContext cmd;
                              cmd1 = cmd\<lparr>receiveContext := None\<rparr>;
                              commandState =
                                \<lparr>CommandState_commandId = Some cid,
                                 CommandState_state =
                                   (if in_endOfStream streamData' then CommandState_Done
                                    else CommandState_Running)\<rparr>
                          in case (if in_endOfStream streamData'
                                   then Send_mark_done (in_streamName streamData')
                                          (length (outboundStreamNames thisShell)) 0
                                          (outboundStreams cmd1)
                                   else Inr (outboundStreams cmd1)) of
                               Inl f \<Rightarrow> Inl f
                             | Inr streams \<Rightarrow>
                                 (let cmd2 = cmd1\<lparr>outboundStreams := streams\<rparr>;
                                      self' = set_command self i (Some cmd2);
                                      receiveStream =
                                        \<lparr>Stream_commandId = Some cid,
                                         Stream_streamName = Some (in_streamName streamData'),
                                         Stream_endOfStream = Some (in_endOfStream streamData')\<rparr>;
                                      receive =
                                        \<lparr>Receive_MIReturn = MI_RESULT_OK,
                                         Receive_CommandState = Some commandState,
                                         Receive_Stream = Some receiveStream\<rparr>
                                  in case Send_decode p thisShell streamData' of
                                       Faulted f \<Rightarrow> Inl f
                                     | Failed r \<Rightarrow>
                                         Inr (Send_finish context receiveContext' r, self')
                                     | Returned decoded \<Rightarrow>
                                         Inr ((case decoded of
                                                 None \<Rightarrow> []
                                               | Some b \<Rightarrow> [WSMAN_PLUGIN_SEND])
                                              @ [Shell_Receive_Post receiveContext' receive]
                                              @ Send_finish context receiveContext' MI_RESULT_OK,
                                              self'))))))"

subsection \<open>Shell_Invoke_Receive\<close>

definition Shell_Invoke_Receive :: "platform \<Rightarrow> Shell_Self \<Rightarrow> MI_Context \<Rightarrow> string \<Rightarrow> string option \<Rightarrow> reply" where
  "Shell_Invoke_Receive p self context instanceName in_commandId' =
     (case FindShell self instanceName of
        None \<Rightarrow> Inr ([MI_Context_PostResult context MI_RESULT_NOT_FOUND], self)
      | Some i \<Rightarrow>
          (let thisShell = shellList self ! i
           in case in_commandId' of
                None \<Rightarrow> Inr ([MI_Context_PostResult context MI_RESULT_NOT_SUPPORTED], self)
              | Some cid \<Rightarrow>
                  (case command thisShell of
                     None \<Rightarrow> Inl NullDereference
                   | Some cmd \<Rightarrow>
                       if Tcscmp cid (commandId cmd) \<noteq> 0
                       then Inr ([MI_Context_PostResult context MI_RESULT_NOT_FOUND], self)
                       else if receiveContext cmd \<noteq> None
                       then Inr ([MI_Context_PostResult context MI_RESULT_ALREADY_EXISTS], self)
                       else Inr ([WSMAN_PLUGIN_RECEIVE],
                                 set_command self i (Some (cmd\<lparr>receiveContext := Some context\<rparr>))))))"

subsection \<open>Shell_Invoke_Signal\<close>

text \<open>
  The block under \<^verbatim>\<open>if (thisShell->command->receiveContext)\<close>: the receive context is
  taken out of the command, \<^verbatim>\<open>outboundStreams[0].done\<close> is read to decide whether the
  result carries a stream, the result is posted with the state \<^verbatim>\<open>Done\<close>, and the
  context gets the result of that post. The block returns the command as it leaves it.
\<close>

definition Signal_flush :: "platform \<Rightarrow> string option \<Rightarrow> CommandData \<Rightarrow> fault + event list \<times> CommandData" where
  "Signal_flush p in_commandId' cmd =
     (case receiveContext cmd of
        None \<Rightarrow> Inr ([], cmd)
      | Some receiveContext' \<Rightarrow>
          (let cmd1 = cmd\<lparr>receiveContext := None\<rparr>
           in if outboundStreams cmd1 = [] then Inl ReadOutsideBuffer
              else
                (let stream = \<lparr>Stream_commandId = in_commandId',
                               Stream_streamName = Some (streamName (outboundStreams cmd1 ! 0)),
                               Stream_endOfStream = None\<rparr>;
                     commandState = \<lparr>CommandState_commandId = in_commandId',
                                     CommandState_state = CommandState_Done\<rparr>;
                     receive = \<lparr>Receive_MIReturn = MI_RESULT_OK,
                                Receive_CommandState = Some commandState,
                                Receive_Stream =
                                  (if \<not> streamDone (outboundStreams cmd1 ! 0) then Some stream
                                   else None)\<rparr>;
                     miResult = post_instance p receiveContext'
                 in Inr ([Shell_Receive_Post (Some receiveContext') receive,
                          MI_Context_PostResult receiveContext' miResult], cmd1))))"

text \<open>
  \<^verbatim>\<open>Shell_Invoke_Signal\<close>. The label \<^verbatim>\<open>error\<close> sits before the lines that free the
  command and post the result, so both \<^verbatim>\<open>GOTO_ERROR\<close>s run them too: with no shell
  the free reads \<^verbatim>\<open>thisShell->command\<close> through a null pointer, and with a command id
  that does not match, the attached command is freed before
  \<^verbatim>\<open>MI_RESULT_NOT_FOUND\<close> is posted.
\<close>

definition Shell_Invoke_Signal :: "platform \<Rightarrow> Shell_Self \<Rightarrow> MI_Context \<Rightarrow> string \<Rightarrow> string option \<Rightarrow> reply" where
  "Shell_Invoke_Signal p self context instanceName in_commandId' =
     (case FindShell self instanceName of
        None \<Rightarrow> Inl NullDereference
      | Some i \<Rightarrow>
          (case command (shellList self ! i) of
             None \<Rightarrow> Inl NullDereference
           | Some cmd \<Rightarrow>
               if (case in_commandId' of None \<Rightarrow> False
                   | Some cid \<Rightarrow> Tcscmp cid (commandId cmd) \<noteq> 0)
               then Inr ([MI_Context_PostResult context MI_RESULT_NOT_FOUND],
                         set_command self i None)
               else (case Signal_flush p in_commandId' cmd of
                       Inl f \<Rightarrow> Inl f
                     | Inr (events, cmd1) \<Rightarrow>
                         Inr (events
                              @ [Shell_Signal_Post context MI_RESULT_OK,
                                 MI_Context_PostResult context (post_instance p context)],
                              set_command self i None))))"

section \<open>Reference libraries and sample sessions\<close>

text \<open>
  A platform to run the model on: a textbook base64 coder that hands its whole output
  to the callback in one block, and a run-length coder in place of Xpress-Huffman.
  The run-length coder keeps the interface of the library: it reports
  \<^verbatim>\<open>STATUS_BUFFER_TOO_SMALL\<close> when its output does not fit the capacity it is given,
  and success otherwise. \<^verbatim>\<open>MI_Char\<close> is \<^verbatim>\<open>char\<close>, and a character constant has the
  size of \<^verbatim>\<open>int\<close> in C.
\<close>

definition base64_symbol :: "nat \<Rightarrow> byte" where
  "base64_symbol n =
     of_nat (if n < 26 then n + 65 else if n < 52 then n + 71 else if n < 62 then n - 4
             else if n = 62 then 43 else 47)"

definition base64_value :: "byte \<Rightarrow> nat option" where
  "base64_value c =
     (let n = unat c
      in if 65 \<le> n \<and> n \<le> 90 then Some (n - 65)
         else if 97 \<le> n \<and> n \<le> 122 then Some (n - 71)
         else if 48 \<le> n \<and> n \<le> 57 then Some (n + 4)
         else if n = 43 then Some 62
         else if n = 47 then Some 63
         else None)"

fun base64_text :: "byte list \<Rightarrow> byte list" where
  "base64_text [] = []"
| "base64_text [a] =
     (let v = unat a * 16
      in [base64_symbol (v div 64), base64_symbol (v mod 64), 61, 61])"
| "base64_text [a, b] =
     (let v = (unat a * 256 + unat b) * 4
      in [base64_symbol (v div 4096), base64_symbol (v div 64 mod 64), base64_symbol (v mod 64), 61])"
| "base64_text (a # b # c # rest) =
     (let v = unat a * 65536 + unat b * 256 + unat c
      in [base64_symbol (v div 262144), base64_symbol (v div 4096 mod 64),
          base64_symbol (v div 64 mod 64), base64_symbol (v mod 64)] @ base64_text rest)"

fun base64_bytes :: "byte list \<Rightarrow> byte list option" where
  "base64_bytes [] = Some []"
| "base64_bytes (a # b # c # d # rest) =
     (case (base64_value a, base64_value b) of
        (Some x, Some y) \<Rightarrow>
          if c = 61 \<and> d = 61 \<and> rest = [] then Some [of_nat ((x * 64 + y) div 16)]
          else (case base64_value c of
                  None \<Rightarrow> None
                | Some z \<Rightarrow>
                    if d = 61 \<and> rest = []
                    then Some [of_nat ((x * 4096 + y * 64 + z) div 1024),
                               of_nat ((x * 4096 + y * 64 + z) div 4 mod 256)]
                    else (case base64_value d of
                            None \<Rightarrow> None
                          | Some w \<Rightarrow>
                              (case base64_bytes rest of
                                 None \<Rightarrow> None
                               | Some bs \<Rightarrow>
                                   Some ([of_nat ((x * 262144 + y * 4096 + z * 64 + w) div 65536),
                                          of_nat ((x * 262144 + y * 4096 + z * 64 + w) div 256 mod 256),
                                          of_nat ((x * 262144 + y * 4096 + z * 64 + w) mod 256)] @ bs))))
      | _ \<Rightarrow> None)"
| "base64_bytes _ = None"

fun rle_encode :: "byte list \<Rightarrow> byte list" where
  "rle_encode [] = []"
| "rle_encode (x # xs) =
     (case rle_encode xs of
        n # y # rest \<Rightarrow> if y = x \<and> n \<noteq> 255 then (n + 1) # y # rest else 1 # x # n # y # rest
      | _ \<Rightarrow> [1, x])"

fun rle_decode :: "byte list \<Rightarrow> byte list option" where
  "rle_decode [] = Some []"
| "rle_decode [n] = None"
| "rle_decode (n # x # rest) =
     (case rle_decode rest of None \<Rightarrow> None | Some r \<Rightarrow> Some (replicate (unat n) x @ r))"

definition rle_compress :: "byte list \<Rightarrow> nat \<Rightarrow> NTSTATUS \<times> byte list" where
  "rle_compress src cap =
     (if length (rle_encode src) > cap then (STATUS_BUFFER_TOO_SMALL, [])
      else (STATUS_SUCCESS, rle_encode src))"

definition rle_decompress :: "byte list \<Rightarrow> nat \<Rightarrow> NTSTATUS \<times> byte list" where
  "rle_decompress src cap =
     (case rle_decode src of
        None \<Rightarrow> (STATUS_UNSUCCESSFUL, [])
      | Some out \<Rightarrow> if length out > cap then (STATUS_BUFFER_TOO_SMALL, [])
                    else (STATUS_SUCCESS, out))"

definition example_platform :: platform where
  "example_platform =
     \<lparr>malloc_ok = (\<lambda>n. True),
      unwritten = (\<lambda>n i. 0),
      sizeof_MI_Char = 1,
      sizeof_MI_T = 4,
      Base64Dec = (\<lambda>buf n. case base64_bytes (take n buf) of None \<Rightarrow> None | Some bs \<Rightarrow> Some [bs]),
      Base64Enc = (\<lambda>buf n. Some [base64_text (take n buf)]),
      RtlCompressWorkSpaceSizeXpressHuff = (STATUS_SUCCESS, 0, 0),
      RtlCompressBufferProgress = rle_compress,
      RtlDecompressBufferProgress = rle_decompress,
      post_instance = (\<lambda>c. MI_RESULT_OK),
      MI_accepts_null_context = True,
      Shell_Command_Clone = MI_RESULT_OK,
      calloc_CommandData = Some 32512,
      sizeof_CommandData = 128\<rparr>"

text \<open>
  The same platform with a run-length coder that reports \<^verbatim>\<open>STATUS_BUFFER_TOO_SMALL\<close>
  also when its output would fill the capacity exactly, so that a successful
  compression is always shorter than its input.
\<close>

definition rle_compress_strict :: "byte list \<Rightarrow> nat \<Rightarrow> NTSTATUS \<times> byte list" where
  "rle_compress_strict src cap =
     (if length (rle_encode src) \<ge> cap then (STATUS_BUFFER_TOO_SMALL, [])
      else (STATUS_SUCCESS, rle_encode src))"

definition strict_platform :: platform where
  "strict_platform = example_platform\<lparr>RtlCompressBufferProgress := rle_compress_strict\<rparr>"

definition exact_buffer :: "byte list \<Rightarrow> DecodeBuffer" where
  "exact_buffer bs = \<lparr>buffer = bs, bufferLength = length bs, bufferUsed = length bs\<rparr>"

text \<open>
  A registry with one shell that declares two outbound streams and has a command
  attached; \<open>pending_self rc\<close> is the same registry with the context \<open>rc\<close> stored in
  the command's \<open>receiveContext\<close>.
\<close>

definition example_command :: CommandData where
  "example_command =
     \<lparr>commandId = ''7f80'',
      outboundStreams = [\<lparr>streamName = ''stdout'', streamDone = False\<rparr>,
                         \<lparr>streamName = ''stderr'', streamDone = False\<rparr>],
      commandContext = None,
      receiveContext = None\<rparr>"

definition example_shell :: ShellData where
  "example_shell =
     \<lparr>shellId = ''7e10'',
      command = Some example_command,
      outboundStreamNames = [''stdout'', ''stderr''],
      isCompressed = False\<rparr>"

definition example_self :: Shell_Self where
  "example_self = \<lparr>shellList = [example_shell]\<rparr>"

definition pending_self :: "MI_Context \<Rightarrow> Shell_Self" where
  "pending_self rc = set_command example_self 0 (Some (example_command\<lparr>receiveContext := Some rc\<rparr>))"

definition stdout_end :: streamData where
  "stdout_end = \<lparr>in_commandId = Some ''7f80'', in_streamName = ''stdout'', in_endOfStream = True,
                   in_data = None, in_dataLength = 0\<rparr>"




text \<open>
  The size the specification states for the base64 output buffer: the ceiling of
  \<open>n * 4 / 3\<close>, two more bytes, and one terminator byte.
\<close>

definition claimed_Base64Enc_bufferLength :: "nat \<Rightarrow> nat" where
  "claimed_Base64Enc_bufferLength n = (n * 4 + 2) div 3 + 2 + 1"

section \<open>The chunk format, stated apart from the loops\<close>

text \<open>
  A chunk on the wire is a header followed by its payload. \<open>chunk_output\<close> is what one
  chunk stands for when the sizes are read as the spec says, each field plus one:
  the payload itself when the two fields are equal, and otherwise what the library
  makes of the payload in a destination of \<open>originalSize + 1\<close> bytes.
\<close>

definition wire_chunk :: "CompressionHeader \<times> byte list \<Rightarrow> byte list" where
  "wire_chunk hp = header_bytes (fst hp) @ snd hp"

definition chunk_output :: "platform \<Rightarrow> CompressionHeader \<times> byte list \<Rightarrow> byte list option" where
  "chunk_output p hp =
     (if originalSize (fst hp) = compressedSize (fst hp)
      then Some (take (unat (originalSize (fst hp)) + 1) (snd hp))
      else (case RtlDecompressBufferProgress p (snd hp) (unat (originalSize (fst hp)) + 1) of
              (status, written) \<Rightarrow> if status = STATUS_SUCCESS then Some written else None))"

definition original_total :: "(CompressionHeader \<times> byte list) list \<Rightarrow> nat" where
  "original_total cs = sum_list (map (\<lambda>hp. unat (originalSize (fst hp)) + 1) cs)"

text \<open>
  A chunk is well formed when its payload has \<open>compressedSize + 1\<close> bytes and it stands
  for at most \<open>originalSize + 1\<close> bytes.
\<close>

definition well_formed_chunk :: "platform \<Rightarrow> CompressionHeader \<times> byte list \<Rightarrow> bool" where
  "well_formed_chunk p hp \<longleftrightarrow>
     length (snd hp) = unat (compressedSize (fst hp)) + 1
     \<and> (case chunk_output p hp of
          None \<Rightarrow> False
        | Some written \<Rightarrow> length written \<le> unat (originalSize (fst hp)) + 1)"

text \<open>
  The producer's side: the input cut into blocks of at most 64 KiB, the bytes stored
  for a block (the block itself when the library reports
  \<^verbatim>\<open>STATUS_BUFFER_TOO_SMALL\<close>, the library's output otherwise), and the chunk made of
  them, with both sizes written as the size minus one.
\<close>

function split_blocks :: "byte list \<Rightarrow> byte list list" where
  "split_blocks bs =
     (if bs = [] then []
      else take MAX_COMPRESS_BUFFER_BLOCK bs # split_blocks (drop MAX_COMPRESS_BUFFER_BLOCK bs))"
  by pat_completeness auto
termination
  by (relation "measure length") (auto simp: MAX_COMPRESS_BUFFER_BLOCK_def)

declare split_blocks.simps [simp del]

definition stored_form :: "platform \<Rightarrow> byte list \<Rightarrow> byte list" where
  "stored_form p chunk =
     (case RtlCompressBufferProgress p chunk (length chunk) of
        (status, written) \<Rightarrow> if status = STATUS_BUFFER_TOO_SMALL then chunk else written)"

definition compress_chunk :: "platform \<Rightarrow> byte list \<Rightarrow> CompressionHeader \<times> byte list" where
  "compress_chunk p chunk =
     (\<lparr>originalSize = word_of_nat (length chunk) - 1,
       compressedSize = word_of_nat (length (stored_form p chunk)) - 1\<rparr>,
      stored_form p chunk)"

definition chunk_count :: "nat \<Rightarrow> nat" where
  "chunk_count n =
     n div MAX_COMPRESS_BUFFER_BLOCK + (if n mod MAX_COMPRESS_BUFFER_BLOCK \<noteq> 0 then 1 else 0)"

text \<open>
  What the loops take from the library. \<open>library_fits\<close>: compression reports
  \<^verbatim>\<open>STATUS_BUFFER_TOO_SMALL\<close> or succeeds with an output no longer than the capacity
  it was given. \<open>library_inverts\<close>: a successful compression of a block into a
  destination of the block's own size is not empty, is shorter than the block, and
  decompresses to the block.
\<close>

definition library_fits :: "platform \<Rightarrow> bool" where
  "library_fits p \<longleftrightarrow>
     (\<forall>src cap. fst (RtlCompressBufferProgress p src cap) = STATUS_BUFFER_TOO_SMALL
        \<or> fst (RtlCompressBufferProgress p src cap) = STATUS_SUCCESS
          \<and> length (snd (RtlCompressBufferProgress p src cap)) \<le> cap)"

definition library_inverts :: "platform \<Rightarrow> bool" where
  "library_inverts p \<longleftrightarrow>
     (\<forall>src written. RtlCompressBufferProgress p src (length src) = (STATUS_SUCCESS, written)
        \<longrightarrow> written \<noteq> [] \<and> length written < length src
          \<and> RtlDecompressBufferProgress p written (length src) = (STATUS_SUCCESS, src))"

section \<open>Facts about the model\<close>

lemmas example_defs = example_self_def example_shell_def example_command_def pending_self_def
  set_command_def FindShell_def

lemma Tcscmp_eq_0_iff: "Tcscmp a b = 0 \<longleftrightarrow> a = b"
  by (induction a b rule: Tcscmp.induct) auto

lemma FindShell_loop_Some:
  "FindShell_loop xs n k = Some i \<Longrightarrow> k \<le> i \<and> i - k < length xs \<and> shellId (xs ! (i - k)) = n"
proof (induction xs arbitrary: k)
  case Nil
  then show ?case by simp
next
  case (Cons x xs)
  show ?case
  proof (cases "Tcscmp n (shellId x) = 0")
    case True
    with Cons.prems show ?thesis by (simp add: Tcscmp_eq_0_iff)
  next
    case False
    with Cons.prems have "FindShell_loop xs n (k + 1) = Some i" by simp
    from Cons.IH [OF this] have *: "k + 1 \<le> i" "i - (k + 1) < length xs"
      "shellId (xs ! (i - (k + 1))) = n" by auto
    from *(1) have "i - k = Suc (i - (k + 1))" by arith
    with * show ?thesis by simp
  qed
qed

lemma FindShell_Some:
  "FindShell self n = Some i \<Longrightarrow> i < length (shellList self) \<and> shellId (shellList self ! i) = n"
  using FindShell_loop_Some [of "shellList self" n 0 i] by (simp add: FindShell_def)

lemma FindShell_loop_cong:
  "map shellId xs = map shellId ys \<Longrightarrow> FindShell_loop xs n k = FindShell_loop ys n k"
proof (induction xs arbitrary: ys k)
  case Nil
  then show ?case by simp
next
  case (Cons x xs)
  then obtain y ys' where ys: "ys = y # ys'" "shellId x = shellId y" "map shellId xs = map shellId ys'"
    by (cases ys) auto
  with Cons.IH [of ys' "k + 1"] show ?case by simp
qed

lemma FindShell_set_command: "FindShell (set_command self j c) n = FindShell self n"
  unfolding FindShell_def set_command_def
proof (rule FindShell_loop_cong)
  show "map shellId (shellList (self\<lparr>shellList := (shellList self)[j := (shellList self ! j)\<lparr>command := c\<rparr>]\<rparr>))
        = map shellId (shellList self)"
  proof (rule nth_equalityI)
    fix k assume "k < length (map shellId (shellList (self\<lparr>shellList := (shellList self)[j := (shellList self ! j)\<lparr>command := c\<rparr>]\<rparr>)))"
    then have "k < length (shellList self)" by simp
    then show "map shellId (shellList (self\<lparr>shellList := (shellList self)[j := (shellList self ! j)\<lparr>command := c\<rparr>]\<rparr>)) ! k
        = map shellId (shellList self) ! k"
      by (cases "k = j") (simp_all add: nth_list_update)
  qed simp
qed

lemma command_set_command:
  "i < length (shellList self) \<Longrightarrow> command (shellList (set_command self i c) ! i) = c"
  by (simp add: set_command_def)

lemma FindShell_example: "FindShell example_self ''7e10'' = Some 0"
  by (simp add: example_defs)

lemma FindShell_pending: "FindShell (pending_self rc) ''7e10'' = Some 0"
  by (simp add: example_defs)

lemma Signal_flush_no_receive:
  "receiveContext cmd = None \<Longrightarrow> Signal_flush p c cmd = Inr ([], cmd)"
  by (simp add: Signal_flush_def)

lemma Signal_flush_pending:
  "receiveContext cmd = Some rc \<Longrightarrow> outboundStreams cmd \<noteq> [] \<Longrightarrow>
   Signal_flush p c cmd =
     Inr ([Shell_Receive_Post (Some rc)
             \<lparr>Receive_MIReturn = MI_RESULT_OK,
              Receive_CommandState =
                Some \<lparr>CommandState_commandId = c, CommandState_state = CommandState_Done\<rparr>,
              Receive_Stream =
                (if streamDone (outboundStreams cmd ! 0) then None
                 else Some \<lparr>Stream_commandId = c,
                            Stream_streamName = Some (streamName (outboundStreams cmd ! 0)),
                            Stream_endOfStream = None\<rparr>)\<rparr>,
           MI_Context_PostResult rc (post_instance p rc)],
          cmd\<lparr>receiveContext := None\<rparr>)"
  by (simp add: Signal_flush_def Let_def)

lemma Signal_resolved:
  assumes "FindShell self instanceName = Some i"
    and "command (shellList self ! i) = Some cmd"
    and "c = None \<or> c = Some (commandId cmd)"
    and "Signal_flush p c cmd = Inr (events, cmd1)"
  shows "Shell_Invoke_Signal p self context instanceName c =
           Inr (events @ [Shell_Signal_Post context MI_RESULT_OK,
                          MI_Context_PostResult context (post_instance p context)],
                set_command self i None)"
  using assms by (auto simp: Shell_Invoke_Signal_def Tcscmp_eq_0_iff)




lemma header_at_stdin_chunk:
  "header_at example_platform
     \<lparr>buffer = [0, 0, 0, 0, 65], bufferLength = 8, bufferUsed = 5\<rparr> 0
     = \<lparr>originalSize = 0, compressedSize = 0\<rparr>"
  "header_at example_platform
     \<lparr>buffer = [0, 0, 0, 0, 65], bufferLength = 8, bufferUsed = 5\<rparr> 5
     = \<lparr>originalSize = 0, compressedSize = 0\<rparr>"
  by (simp_all add: header_at_def USHORT_at_def memory_def example_platform_def)



lemma MI_Uint32_small:
  "n < 2 ^ 30 \<and> s < 2 ^ 30 \<Longrightarrow> MI_Uint32 (MI_Uint32 (n * 4) div 3 + s) = n * 4 div 3 + s"
proof -
  assume a: "n < 2 ^ 30 \<and> s < 2 ^ 30"
  then have n: "n < 1073741824" and s: "s < 1073741824" by simp_all
  from n have 1: "n * 4 < 2 ^ 32" by simp
  have "n * 4 div 3 \<le> n * 4" by simp
  with n s have "n * 4 div 3 + s < 4294967296" by linarith
  then have 2: "n * 4 div 3 + s < 2 ^ 32" by simp
  show ?thesis unfolding MI_Uint32_def using 1 2 by (simp only: mod_less)
qed

lemma base64_symbol_16: "base64_symbol 16 = 81"
  by (simp add: base64_symbol_def)

lemma deliver_Enc_invariant:
  "deliver Shell_Base64Enc_Callback blocks b = (r, b') \<Longrightarrow>
   bufferLength b' = bufferLength b \<and> (bufferUsed b \<le> bufferLength b \<longrightarrow> bufferUsed b' \<le> bufferLength b')"
proof (induction blocks arbitrary: b)
  case Nil
  then show ?case by simp
next
  case (Cons d ds)
  show ?case
  proof (cases "bufferUsed b + length d > bufferLength b")
    case True
    then have cb: "Shell_Base64Enc_Callback d b = (- 1, b)"
      by (simp add: Shell_Base64Enc_Callback_def)
    from Cons.prems show ?thesis by (simp add: cb)
  next
    case False
    define b1 where "b1 = b\<lparr>buffer := memcpy (buffer b) (bufferUsed b) d,
                             bufferUsed := bufferUsed b + length d\<rparr>"
    from False have cb: "Shell_Base64Enc_Callback d b = (0, b1)"
      by (simp add: Shell_Base64Enc_Callback_def b1_def)
    from Cons.prems have "deliver Shell_Base64Enc_Callback ds b1 = (r, b')"
      by (simp add: cb)
    from Cons.IH [OF this] False show ?thesis by (simp add: b1_def)
  qed
qed

lemma Base64EncodeBuffer_example:
  "Base64EncodeBuffer example_platform (exact_buffer [65])
     = Returned \<lparr>buffer = [81, 81, 61, 61], bufferLength = 10, bufferUsed = 4\<rparr>"
proof -
  have b64: "base64_text [65] = [81, 81, 61, 61]" by (simp add: base64_symbol_16)
  have len: "Base64Enc_bufferLength example_platform (Suc 0) = 10"
    by (simp add: Base64Enc_bufferLength_def MI_Uint32_def example_platform_def)
  have cb: "Shell_Base64Enc_Callback [81, 81, 61, 61] \<lparr>buffer = [], bufferLength = 10, bufferUsed = 0\<rparr>
              = (0, \<lparr>buffer = [81, 81, 61, 61], bufferLength = 10, bufferUsed = 4\<rparr>)"
    by (simp add: Shell_Base64Enc_Callback_def memcpy_def)
  have enc: "Base64Enc example_platform [65] (Suc 0) = Some [[81, 81, 61, 61]]"
    by (simp add: example_platform_def base64_symbol_16)
  have ok: "malloc_ok example_platform 10" "sizeof_MI_Char example_platform = Suc 0"
    by (simp_all add: example_platform_def)
  show ?thesis
    unfolding Base64EncodeBuffer_def exact_buffer_def
    by (simp add: len enc cb ok MI_Uint32_def)
qed


section \<open>The data plane: Send, Receive and Signal\<close>

text \<open>
  Claim C3. A Send with \<open>endOfStream\<close> set is claimed to set \<open>done\<close> on the first
  stream-table entry whose name equals the sent stream name, and on no other entry.
  The loop tests \<^verbatim>\<open>if (Tcscmp(...))\<close>, which is true when the names differ: on a
  command with the streams \<open>stdout\<close> and \<open>stderr\<close>, neither of them done, a Send
  that ends \<open>stdout\<close> leaves \<open>stdout\<close> as it was and sets \<open>done\<close> on \<open>stderr\<close>.
\<close>

theorem Send_endOfStream_marks_other_stream:
  "Shell_Invoke_Send example_platform (pending_self 5) 9 ''7e10'' stdout_end =
     Inr ([Shell_Receive_Post (Some 5)
             \<lparr>Receive_MIReturn = MI_RESULT_OK,
              Receive_CommandState =
                Some \<lparr>CommandState_commandId = Some ''7f80'', CommandState_state = CommandState_Done\<rparr>,
              Receive_Stream =
                Some \<lparr>Stream_commandId = Some ''7f80'', Stream_streamName = Some ''stdout'',
                      Stream_endOfStream = Some True\<rparr>\<rparr>,
           MI_Context_PostResult 5 MI_RESULT_OK,
           Shell_Send_Post 9 MI_RESULT_OK,
           MI_Context_PostResult 9 MI_RESULT_OK],
          \<lparr>shellList =
             [example_shell\<lparr>command := Some (example_command\<lparr>outboundStreams :=
                [\<lparr>streamName = ''stdout'', streamDone = False\<rparr>,
                 \<lparr>streamName = ''stderr'', streamDone = True\<rparr>]\<rparr>)\<rparr>]\<rparr>)"
  by (simp add: Shell_Invoke_Send_def example_defs stdout_end_def Send_decode_def Send_finish_def
      Send_mark_done.simps)

text \<open>
  Claim C4. Send, Receive and Signal with an unknown shell id or a command id that does
  not match are claimed to return \<^verbatim>\<open>NotFound\<close> and to change nothing. In
  \<^verbatim>\<open>Shell_Invoke_Signal\<close> both error exits jump to the label that frees the command:
  a command id that does not match posts \<^verbatim>\<open>MI_RESULT_NOT_FOUND\<close> and leaves the shell
  without its command, and an unknown shell id reads \<^verbatim>\<open>thisShell->command\<close> through a
  null pointer.
\<close>

theorem Signal_NotFound_frees_command:
  "Shell_Invoke_Signal example_platform (pending_self 5) 9 ''7e10'' (Some ''0bad'') =
     Inr ([MI_Context_PostResult 9 MI_RESULT_NOT_FOUND],
          \<lparr>shellList = [example_shell\<lparr>command := None\<rparr>]\<rparr>)
   \<and> \<lparr>shellList = [example_shell\<lparr>command := None\<rparr>]\<rparr> \<noteq> pending_self 5
   \<and> Shell_Invoke_Signal example_platform (pending_self 5) 9 ''beef'' (Some ''7f80'') =
       Inl NullDereference"
  by (simp add: Shell_Invoke_Signal_def example_defs)

text \<open>
  Claim C5, as the code has it. For every Signal that finds its shell and whose command
  id is absent or matches the attached command (the command having at least one stream
  when a Receive is pending): a pending receive context is taken out of the command and
  gets a receive result with the command state \<^verbatim>\<open>Done\<close>, which carries a stream entry
  for \<^verbatim>\<open>outboundStreams[0]\<close> exactly when that stream is not flagged done, followed by
  the result of that post; no stream's \<open>done\<close> flag is changed. Whether or not a
  Receive was pending, the command is detached from the shell, and the caller gets the
  Signal reply and the result of posting it.
\<close>

theorem Signal_flushes_and_frees:
  assumes "FindShell self instanceName = Some i"
    and "command (shellList self ! i) = Some cmd"
    and "c = None \<or> c = Some (commandId cmd)"
    and "receiveContext cmd \<noteq> None \<longrightarrow> outboundStreams cmd \<noteq> []"
  shows "\<exists>events cmd1.
           Signal_flush p c cmd = Inr (events, cmd1)
         \<and> outboundStreams cmd1 = outboundStreams cmd
         \<and> receiveContext cmd1 = None
         \<and> events =
             (case receiveContext cmd of
                None \<Rightarrow> []
              | Some rc \<Rightarrow>
                  [Shell_Receive_Post (Some rc)
                     \<lparr>Receive_MIReturn = MI_RESULT_OK,
                      Receive_CommandState =
                        Some \<lparr>CommandState_commandId = c, CommandState_state = CommandState_Done\<rparr>,
                      Receive_Stream =
                        (if streamDone (outboundStreams cmd ! 0) then None
                         else Some \<lparr>Stream_commandId = c,
                                    Stream_streamName = Some (streamName (outboundStreams cmd ! 0)),
                                    Stream_endOfStream = None\<rparr>)\<rparr>,
                   MI_Context_PostResult rc (post_instance p rc)])
         \<and> Shell_Invoke_Signal p self context instanceName c =
             Inr (events @ [Shell_Signal_Post context MI_RESULT_OK,
                            MI_Context_PostResult context (post_instance p context)],
                  set_command self i None)
         \<and> command (shellList (set_command self i None) ! i) = None"
proof (cases "receiveContext cmd")
  case None
  from assms(1) have i: "i < length (shellList self)" by (simp add: FindShell_Some)
  have fl: "Signal_flush p c cmd = Inr ([], cmd)" using None by (rule Signal_flush_no_receive)
  show ?thesis
    using None fl Signal_resolved [OF assms(1-3) fl, of "context"] command_set_command [OF i, of None]
    by simp
next
  case (Some rc)
  from assms(1) have i: "i < length (shellList self)" by (simp add: FindShell_Some)
  from Some assms(4) have ne: "outboundStreams cmd \<noteq> []" by simp
  note fl = Signal_flush_pending [OF Some ne, of p c]
  show ?thesis
    using Some fl Signal_resolved [OF assms(1-3) fl, of "context"] command_set_command [OF i, of None]
    by simp
qed

text \<open>
  Claim C5 on one input: the registry with a Receive pending on context 5, signalled
  with the matching command id.
\<close>

theorem Signal_flushes_and_frees_witness:
  "FindShell (pending_self 5) ''7e10'' = Some 0
   \<and> command (shellList (pending_self 5) ! 0) = Some (example_command\<lparr>receiveContext := Some 5\<rparr>)
   \<and> Shell_Invoke_Signal example_platform (pending_self 5) 9 ''7e10'' (Some ''7f80'') =
       Inr ([Shell_Receive_Post (Some 5)
               \<lparr>Receive_MIReturn = MI_RESULT_OK,
                Receive_CommandState =
                  Some \<lparr>CommandState_commandId = Some ''7f80'',
                        CommandState_state = CommandState_Done\<rparr>,
                Receive_Stream =
                  Some \<lparr>Stream_commandId = Some ''7f80'', Stream_streamName = Some ''stdout'',
                        Stream_endOfStream = None\<rparr>\<rparr>,
             MI_Context_PostResult 5 MI_RESULT_OK,
             Shell_Signal_Post 9 MI_RESULT_OK,
             MI_Context_PostResult 9 MI_RESULT_OK],
            set_command (pending_self 5) 0 None)
   \<and> command (shellList (set_command (pending_self 5) 0 None) ! 0) = None"
proof -
  have h1: "FindShell (pending_self 5) ''7e10'' = Some 0" by (rule FindShell_pending)
  have h2: "command (shellList (pending_self 5) ! 0) = Some (example_command\<lparr>receiveContext := Some 5\<rparr>)"
    by (simp add: example_defs)
  have h3: "Some ''7f80'' = None \<or> Some ''7f80'' = Some (commandId (example_command\<lparr>receiveContext := Some 5\<rparr>))"
    by (simp add: example_defs)
  have h4: "receiveContext (example_command\<lparr>receiveContext := Some 5\<rparr>) \<noteq> None
            \<longrightarrow> outboundStreams (example_command\<lparr>receiveContext := Some 5\<rparr>) \<noteq> []"
    by (simp add: example_defs)
  have ev: "post_instance example_platform = (\<lambda>c. MI_RESULT_OK)" by (simp add: example_platform_def)
  have st: "outboundStreams (example_command\<lparr>receiveContext := Some 5\<rparr>) ! 0 = \<lparr>streamName = ''stdout'', streamDone = False\<rparr>"
    by (simp add: example_command_def)
  from Signal_flushes_and_frees [OF h1 h2 h3 h4, of example_platform 9] h1 h2 ev st
  show ?thesis by auto
qed

text \<open>
  Claim C5 as stated says that Signal marks the primary stream done when a Receive is
  pending. The block that answers the pending Receive only reads the flag: the command
  it leaves behind, just before the command is freed, still has \<open>stdout\<close> not done.
\<close>

theorem Signal_leaves_streams_counterexample:
  "Signal_flush example_platform (Some ''7f80'') (example_command\<lparr>receiveContext := Some 5\<rparr>) =
     Inr ([Shell_Receive_Post (Some 5)
             \<lparr>Receive_MIReturn = MI_RESULT_OK,
              Receive_CommandState =
                Some \<lparr>CommandState_commandId = Some ''7f80'', CommandState_state = CommandState_Done\<rparr>,
              Receive_Stream =
                Some \<lparr>Stream_commandId = Some ''7f80'', Stream_streamName = Some ''stdout'',
                      Stream_endOfStream = None\<rparr>\<rparr>,
           MI_Context_PostResult 5 MI_RESULT_OK],
          example_command)
   \<and> streamDone (outboundStreams example_command ! 0) = False"
  by (simp add: Signal_flush_def example_defs example_platform_def)

text \<open>
  Claim C6. A Receive addressed to a command whose \<open>receiveContext\<close> is already
  occupied posts \<^verbatim>\<open>MI_RESULT_ALREADY_EXISTS\<close> to the caller and leaves the whole
  registry, and so the installed context, as it was.
\<close>

theorem Receive_pending_already_exists:
  assumes "FindShell self instanceName = Some i"
    and "command (shellList self ! i) = Some cmd"
    and "receiveContext cmd = Some pending"
  shows "Shell_Invoke_Receive p self context instanceName (Some (commandId cmd))
           = Inr ([MI_Context_PostResult context MI_RESULT_ALREADY_EXISTS], self)"
  using assms by (simp add: Shell_Invoke_Receive_def Tcscmp_eq_0_iff)

text \<open>Claim C6 on one input: a second Receive while context 5 is pending.\<close>

theorem Receive_pending_already_exists_witness:
  "FindShell (pending_self 5) ''7e10'' = Some 0
   \<and> command (shellList (pending_self 5) ! 0) = Some (example_command\<lparr>receiveContext := Some 5\<rparr>)
   \<and> receiveContext (example_command\<lparr>receiveContext := Some 5\<rparr>) = Some 5
   \<and> Shell_Invoke_Receive example_platform (pending_self 5) 9 ''7e10'' (Some ''7f80'') =
       Inr ([MI_Context_PostResult 9 MI_RESULT_ALREADY_EXISTS], pending_self 5)"
proof -
  have h1: "FindShell (pending_self 5) ''7e10'' = Some 0" by (rule FindShell_pending)
  have h2: "command (shellList (pending_self 5) ! 0) = Some (example_command\<lparr>receiveContext := Some 5\<rparr>)"
    by (simp add: example_defs)
  have h3: "receiveContext (example_command\<lparr>receiveContext := Some 5\<rparr>) = Some 5" by simp
  have c: "commandId (example_command\<lparr>receiveContext := Some 5\<rparr>) = ''7f80''"
    by (simp add: example_defs)
  from Receive_pending_already_exists [OF h1 h2 h3, of example_platform 9] h1 h2 h3 c
  show ?thesis by simp
qed

text \<open>
  Claim C7. A shell holds at most one command, an \<^verbatim>\<open>Shell_Invoke_Command\<close> on a shell
  that has one is claimed to return \<^verbatim>\<open>AlreadyExists\<close> and attach nothing, and a new
  command is claimed to be accepted after a Signal has freed the first. The rejected
  call posts \<^verbatim>\<open>MI_RESULT_ALREADY_EXISTS\<close>, but its clean-up at the label \<^verbatim>\<open>error\<close> frees
  the command that was attached and running: the shell is left with no command, the
  receive context that was pending on it is dropped, a Signal for that command then
  reads \<^verbatim>\<open>thisShell->command\<close> through a null pointer, and the next
  \<^verbatim>\<open>Shell_Invoke_Command\<close> is accepted with no Signal in between.
\<close>

theorem Invoke_Command_rejected_frees_command:
  "Shell_Invoke_Command example_platform (pending_self 5) 9 ''7e10'' =
     Inr ([MI_Context_PostResult 9 MI_RESULT_ALREADY_EXISTS],
          \<lparr>shellList = [example_shell\<lparr>command := None\<rparr>]\<rparr>)
   \<and> Shell_Invoke_Signal example_platform \<lparr>shellList = [example_shell\<lparr>command := None\<rparr>]\<rparr>
         9 ''7e10'' (Some ''7f80'') = Inl NullDereference
   \<and> Shell_Invoke_Command example_platform \<lparr>shellList = [example_shell\<lparr>command := None\<rparr>]\<rparr>
         11 ''7e10'' =
       Inr ([WSMAN_PLUGIN_COMMAND],
            \<lparr>shellList =
               [example_shell\<lparr>command := Some (example_command\<lparr>receiveContext := Some 11\<rparr>)\<rparr>]\<rparr>)"
proof -
  have id: "llx 32640 = ''7f80''"
    by (simp add: llx.simps hex_digit_def)
  show ?thesis
    by (simp add: Shell_Invoke_Command_def Shell_Invoke_Signal_def example_defs
          example_platform_def id)
qed



text \<open>
  Claim C10, as the code has it. For every Send to a registered shell whose stream data
  carries no command id, the caller gets \<^verbatim>\<open>MI_RESULT_NOT_SUPPORTED\<close> and nothing else
  happens: nothing is decoded or forwarded, and the registry is unchanged.
\<close>

theorem Send_without_commandId:
  assumes "FindShell self instanceName \<noteq> None" and "in_commandId sd = None"
  shows "Shell_Invoke_Send p self context instanceName sd =
           Inr ([MI_Context_PostResult context MI_RESULT_NOT_SUPPORTED], self)"
  using assms by (auto simp: Shell_Invoke_Send_def Send_finish_def)

text \<open>Claim C10 on one input: a Send without a command id to the sample shell.\<close>

theorem Send_without_commandId_witness:
  "FindShell example_self ''7e10'' \<noteq> None
   \<and> in_commandId (stdout_end\<lparr>in_commandId := None\<rparr>) = None
   \<and> Shell_Invoke_Send example_platform example_self 9 ''7e10'' (stdout_end\<lparr>in_commandId := None\<rparr>) =
       Inr ([MI_Context_PostResult 9 MI_RESULT_NOT_SUPPORTED], example_self)"
proof -
  have h1: "FindShell example_self ''7e10'' \<noteq> None" by (simp add: FindShell_example)
  have h2: "in_commandId (stdout_end\<lparr>in_commandId := None\<rparr>) = None" by simp
  from Send_without_commandId [OF h1 h2, of example_platform 9] h1 h2
  show ?thesis by simp
qed

text \<open>
  Claim C10 as stated covers every Send without a command id. The shell is looked up
  first: with a shell id that is not registered, such a Send gets
  \<^verbatim>\<open>MI_RESULT_NOT_FOUND\<close>.
\<close>

theorem Send_without_commandId_counterexample:
  "Shell_Invoke_Send example_platform example_self 9 ''beef'' (stdout_end\<lparr>in_commandId := None\<rparr>) =
     Inr ([MI_Context_PostResult 9 MI_RESULT_NOT_FOUND], example_self)
   \<and> in_commandId (stdout_end\<lparr>in_commandId := None\<rparr>) = None"
  by (simp add: Shell_Invoke_Send_def example_defs Send_finish_def)


section \<open>Base64 framing\<close>

text \<open>
  Claim C8, as the code has it. For an input of \<open>n\<close> bytes
  \<^verbatim>\<open>Base64EncodeBuffer\<close> allocates
  \<open>(n * 4) div 3 + sizeof(MI_Char) + 2 * sizeof(MI_T('='))\<close> bytes, the product and the
  sum reduced modulo \<open>2 ^ 32\<close> (below \<open>2 ^ 30\<close> nothing wraps); a buffer it returns
  has at least \<open>sizeof(MI_Char)\<close> bytes left after the encoded text, so it returns a
  failure whenever less than that remains; and it reads nothing outside a buffer.
\<close>

theorem Base64EncodeBuffer_allocation:
  "(\<forall>toBuffer. Base64EncodeBuffer p fromBuffer = Returned toBuffer \<longrightarrow>
      bufferLength toBuffer =
        MI_Uint32 (MI_Uint32 (bufferUsed fromBuffer * 4) div 3 + sizeof_MI_Char p + sizeof_MI_T p * 2)
      \<and> bufferUsed toBuffer + sizeof_MI_Char p \<le> bufferLength toBuffer)
   \<and> (bufferUsed fromBuffer < 2 ^ 30 \<and> sizeof_MI_Char p + sizeof_MI_T p * 2 < 2 ^ 30 \<longrightarrow>
        Base64Enc_bufferLength p (bufferUsed fromBuffer) =
          bufferUsed fromBuffer * 4 div 3 + sizeof_MI_Char p + sizeof_MI_T p * 2)
   \<and> (\<forall>f. Base64EncodeBuffer p fromBuffer \<noteq> Faulted f)"
proof (intro conjI allI impI)
  fix toBuffer
  assume ret: "Base64EncodeBuffer p fromBuffer = Returned toBuffer"
  define L where "L = Base64Enc_bufferLength p (bufferUsed fromBuffer)"
  have Llt: "L < 2 ^ 32" by (simp add: L_def Base64Enc_bufferLength_def MI_Uint32_def)
  from ret obtain blocks r where
    d: "deliver Shell_Base64Enc_Callback blocks \<lparr>buffer = [], bufferLength = L, bufferUsed = 0\<rparr> = (r, toBuffer)"
    and room: "\<not> MI_Uint32 (bufferLength toBuffer + 2 ^ 32 - bufferUsed toBuffer) < sizeof_MI_Char p"
    by (auto simp: Base64EncodeBuffer_def Let_def L_def split: if_splits option.splits prod.splits)
  from deliver_Enc_invariant [OF d] have len: "bufferLength toBuffer = L"
    and used: "bufferUsed toBuffer \<le> bufferLength toBuffer" by simp_all
  show "bufferLength toBuffer =
        MI_Uint32 (MI_Uint32 (bufferUsed fromBuffer * 4) div 3 + sizeof_MI_Char p + sizeof_MI_T p * 2)"
    using len by (simp add: L_def Base64Enc_bufferLength_def)
  define x where "x = bufferLength toBuffer - bufferUsed toBuffer"
  have "bufferLength toBuffer + 2 ^ 32 - bufferUsed toBuffer = x + 2 ^ 32"
    using used by (simp add: x_def)
  moreover have "x < 2 ^ 32" using Llt len by (simp add: x_def)
  ultimately have "MI_Uint32 (bufferLength toBuffer + 2 ^ 32 - bufferUsed toBuffer)
          = bufferLength toBuffer - bufferUsed toBuffer"
    unfolding MI_Uint32_def x_def by (metis mod_add_self2 mod_less)
  with room used show "bufferUsed toBuffer + sizeof_MI_Char p \<le> bufferLength toBuffer" by simp
next
  assume "bufferUsed fromBuffer < 2 ^ 30 \<and> sizeof_MI_Char p + sizeof_MI_T p * 2 < 2 ^ 30"
  from MI_Uint32_small [OF this]
  show "Base64Enc_bufferLength p (bufferUsed fromBuffer) =
          bufferUsed fromBuffer * 4 div 3 + sizeof_MI_Char p + sizeof_MI_T p * 2"
    by (simp add: Base64Enc_bufferLength_def add.assoc)
next
  fix f
  show "Base64EncodeBuffer p fromBuffer \<noteq> Faulted f"
    by (simp add: Base64EncodeBuffer_def Let_def split: option.splits prod.splits)
qed

text \<open>Claim C8 on one input: the single byte 65, encoded as \<open>QQ==\<close>.\<close>

theorem Base64EncodeBuffer_allocation_witness:
  "Base64EncodeBuffer example_platform (exact_buffer [65])
     = Returned \<lparr>buffer = [81, 81, 61, 61], bufferLength = 10, bufferUsed = 4\<rparr>
   \<and> bufferLength \<lparr>buffer = [81, 81, 61, 61 :: byte], bufferLength = 10, bufferUsed = 4\<rparr>
       = MI_Uint32 (MI_Uint32 (bufferUsed (exact_buffer [65]) * 4) div 3
           + sizeof_MI_Char example_platform + sizeof_MI_T example_platform * 2)
   \<and> bufferUsed \<lparr>buffer = [81, 81, 61, 61 :: byte], bufferLength = 10, bufferUsed = 4\<rparr>
       + sizeof_MI_Char example_platform \<le> 10
   \<and> bufferUsed (exact_buffer [65]) < 2 ^ 30
   \<and> Base64Enc_bufferLength example_platform (bufferUsed (exact_buffer [65])) = 1 * 4 div 3 + 1 + 4 * 2"
proof -
  have ex: "Base64EncodeBuffer example_platform (exact_buffer [65])
     = Returned \<lparr>buffer = [81, 81, 61, 61], bufferLength = 10, bufferUsed = 4\<rparr>"
    by (rule Base64EncodeBuffer_example)
  have sz: "sizeof_MI_Char example_platform = 1" "sizeof_MI_T example_platform = 4"
    "bufferUsed (exact_buffer [65]) = 1"
    by (simp_all add: example_platform_def exact_buffer_def)
  from Base64EncodeBuffer_allocation [of example_platform "exact_buffer [65]"] ex sz
  show ?thesis by (simp add: MI_Uint32_def)
qed

text \<open>
  Claim C8 as stated gives the size as the ceiling of \<open>n * 4 / 3\<close> plus two bytes plus
  one terminator byte, which is 5 for one byte of input. The code divides with C's
  integer division and adds \<^verbatim>\<open>sizeof\<close> of a character constant twice: it allocates 10
  bytes where \<^verbatim>\<open>MI_Char\<close> is \<^verbatim>\<open>char\<close>, and would allocate 4 if the constant had
  the size of one \<^verbatim>\<open>char\<close>.
\<close>

theorem Base64EncodeBuffer_allocation_counterexample:
  "Base64EncodeBuffer example_platform (exact_buffer [65])
     = Returned \<lparr>buffer = [81, 81, 61, 61], bufferLength = 10, bufferUsed = 4\<rparr>
   \<and> claimed_Base64Enc_bufferLength (bufferUsed (exact_buffer [65])) = 5
   \<and> Base64Enc_bufferLength (example_platform\<lparr>sizeof_MI_T := 1\<rparr>) 1 = 4"
proof -
  have "claimed_Base64Enc_bufferLength (bufferUsed (exact_buffer [65])) = 5"
    by (simp add: claimed_Base64Enc_bufferLength_def exact_buffer_def)
  moreover have "Base64Enc_bufferLength (example_platform\<lparr>sizeof_MI_T := 1\<rparr>) 1 = 4"
    by (simp add: Base64Enc_bufferLength_def MI_Uint32_def example_platform_def)
  ultimately show ?thesis using Base64EncodeBuffer_example by simp
qed

section \<open>The codec\<close>

subsection \<open>Reading chunks back\<close>

lemma MI_Uint32_id: "n < 2 ^ 32 \<Longrightarrow> MI_Uint32 n = n"
  by (simp add: MI_Uint32_def)

lemma memcpy_append: "memcpy xs (length xs) ys = xs @ ys"
  by (simp add: memcpy_def)

lemma memory_written: "i < length (buffer b) \<Longrightarrow> memory p b i = buffer b ! i"
  by (simp add: memory_def)

lemma read_bytes_written:
  assumes "off + n \<le> length (buffer b)"
  shows "read_bytes p b off n = take n (drop off (buffer b))"
proof (rule nth_equalityI)
  show "length (read_bytes p b off n) = length (take n (drop off (buffer b)))"
    using assms by (simp add: read_bytes_def)
next
  fix i assume "i < length (read_bytes p b off n)"
  then have i: "i < n" by (simp add: read_bytes_def)
  with assms have "off + i < length (buffer b)" by simp
  with i show "read_bytes p b off n ! i = take n (drop off (buffer b)) ! i"
    by (simp add: read_bytes_def memory_written)
qed

lemma USHORT_at_bytes:
  assumes "buffer b = pre @ USHORT_bytes w @ rest"
  shows "USHORT_at p b (length pre) = w"
proof -
  have w: "ucast (ucast w :: byte) OR push_bit 8 (ucast (ucast (drop_bit 8 w) :: byte)) = w"
    by (rule bit_word_eqI) (auto simp: bit_simps)
  have 0: "memory p b (length pre) = ucast w"
    using assms by (simp add: memory_def USHORT_bytes_def nth_append)
  have 1: "memory p b (length pre + 1) = ucast (drop_bit 8 w)"
    using assms by (simp add: memory_def USHORT_bytes_def nth_append)
  show ?thesis
    unfolding USHORT_at_def 0 1 by (rule w)
qed

lemma header_at_bytes:
  assumes "buffer b = pre @ header_bytes h @ rest"
  shows "header_at p b (length pre) = h"
proof -
  have 1: "USHORT_at p b (length pre) = originalSize h"
    by (rule USHORT_at_bytes [where rest = "USHORT_bytes (compressedSize h) @ rest"])
       (simp add: assms header_bytes_def)
  have "USHORT_at p b (length (pre @ USHORT_bytes (originalSize h))) = compressedSize h"
    by (rule USHORT_at_bytes [where rest = rest]) (simp add: assms header_bytes_def)
  then have 2: "USHORT_at p b (length pre + 2) = compressedSize h"
    by (simp add: USHORT_bytes_def)
  show ?thesis
    by (simp only: header_at_def 1 2) simp
qed

lemma length_header_bytes: "length (header_bytes h) = 4"
  by (simp add: header_bytes_def USHORT_bytes_def)

lemma wire_chunk_pair: "wire_chunk (h, pl) = header_bytes h @ pl"
  by (simp add: wire_chunk_def)

lemma length_wire_chunk: "length (wire_chunk hp) = 4 + length (snd hp)"
  by (simp add: wire_chunk_def length_header_bytes)

lemma original_total_Cons:
  "original_total (hp # cs) = unat (originalSize (fst hp)) + 1 + original_total cs"
  by (simp add: original_total_def)

lemma Calculate_chunks:
  assumes "\<forall>hp \<in> set cs. length (snd hp) = unat (compressedSize (fst hp)) + 1"
    and "buffer b = pre @ concat (map wire_chunk cs)"
    and "length (buffer b) \<le> bufferLength b"
  shows "CalculateTotalUncompressedSize_loop p b (length pre) acc =
         CalculateTotalUncompressedSize_loop p b (length (buffer b)) (acc + original_total cs)"
  using assms
proof (induction cs arbitrary: pre acc)
  case Nil
  then show ?case
    by (simp add: original_total_def)
next
  case (Cons hp cs)
  obtain h pl where hp: "hp = (h, pl)" by (cases hp)
  from Cons.prems(1) hp have pl: "length pl = unat (compressedSize h) + 1" by simp
  have buf: "buffer b = pre @ header_bytes h @ (pl @ concat (map wire_chunk cs))"
    using Cons.prems(2) hp by (simp add: wire_chunk_pair)
  have hd: "header_at p b (length pre) = h"
    using buf by (rule header_at_bytes)
  have lt: "length pre < bufferLength b"
    using Cons.prems(3) buf by (simp add: length_header_bytes)
  have next_cursor: "length pre + (unat (compressedSize h) + 1) + sizeof_CompressionHeader
                = length (pre @ wire_chunk hp)"
    using pl hp by (simp add: length_wire_chunk sizeof_CompressionHeader_def)
  have buf': "buffer b = (pre @ wire_chunk hp) @ concat (map wire_chunk cs)"
    using Cons.prems(2) by simp
  have IH: "CalculateTotalUncompressedSize_loop p b (length (pre @ wire_chunk hp))
              (acc + (unat (originalSize h) + 1)) =
            CalculateTotalUncompressedSize_loop p b (length (buffer b))
              (acc + (unat (originalSize h) + 1) + original_total cs)"
    using Cons.prems(1) buf' Cons.prems(3) by (intro Cons.IH) simp_all
  have acc: "acc + original_total (hp # cs) = acc + (unat (originalSize h) + 1) + original_total cs"
    by (simp add: hp original_total_Cons)
  show ?case
    apply (subst CalculateTotalUncompressedSize_loop.simps)
    apply (simp only: lt if_True hd Let_def next_cursor IH acc)
    done
qed

lemma Decompress_step:
  assumes buf: "buffer b = pre @ header_bytes h @ pl @ rest"
    and used: "bufferUsed b = length (buffer b)"
    and pl: "length pl = unat (compressedSize h) + 1"
    and out: "chunk_output p (h, pl) = Some out"
    and fits: "length out \<le> unat (originalSize h) + 1"
    and t_used: "bufferUsed t = length (buffer t)"
    and room: "length (buffer t) + (unat (originalSize h) + 1) \<le> bufferLength t"
    and small: "bufferLength t < 2 ^ 32"
  shows "DecompressBuffer_loop p b (length pre) t =
         DecompressBuffer_loop p b (length pre + 4 + length pl)
           (t\<lparr>buffer := buffer t @ out, bufferUsed := length (buffer t) + length out\<rparr>)"
proof -
  have lt: "length pre < bufferUsed b"
    using buf used by (simp add: length_header_bytes)
  have hd: "header_at p b (length pre) = h"
    using buf by (rule header_at_bytes)
  have chk: "\<not> MI_Uint32 (bufferUsed t + (unat (originalSize h) + 1)) > bufferLength t"
  proof -
    have "bufferUsed t + (unat (originalSize h) + 1) < 2 ^ 32" using room small t_used by simp
    then show ?thesis using room t_used by (simp add: MI_Uint32_id)
  qed
  have data: "read_bytes p b (length pre + sizeof_CompressionHeader) (unat (compressedSize h) + 1) = pl"
  proof -
    have "length pre + sizeof_CompressionHeader + (unat (compressedSize h) + 1) \<le> length (buffer b)"
      using buf pl by (simp add: length_header_bytes sizeof_CompressionHeader_def)
    from read_bytes_written [OF this] show ?thesis
      using pl by (simp add: buf sizeof_CompressionHeader_def length_header_bytes)
  qed
  have u: "MI_Uint32 (bufferUsed t + length out) = length (buffer t) + length out"
  proof -
    have "bufferUsed t + length out < 2 ^ 32" using fits room small t_used by simp
    then show ?thesis using t_used by (simp add: MI_Uint32_id)
  qed
  show ?thesis
  proof (cases "originalSize h = compressedSize h")
    case True
    from out True have o: "out = take (unat (compressedSize h) + 1) pl"
      by (simp add: chunk_output_def)
    with pl have o': "out = pl" by simp
    have u': "MI_Uint32 (bufferUsed t + (unat (compressedSize h) + 1)) = length (buffer t) + length pl"
      using u o' pl by simp
    show ?thesis
      apply (subst DecompressBuffer_loop.simps)
      using lt hd chk True data u' o' t_used pl
      apply (simp add: Let_def memcpy_append sizeof_CompressionHeader_def)
      done
  next
    case False
    from out False obtain status where
      lib: "RtlDecompressBufferProgress p pl (unat (originalSize h) + 1) = (status, out)"
      and st: "status = STATUS_SUCCESS"
      by (auto simp: chunk_output_def split: prod.splits if_splits)
    show ?thesis
      apply (subst DecompressBuffer_loop.simps)
      using lt hd chk False data u t_used pl lib st
      apply (simp add: Let_def memcpy_append sizeof_CompressionHeader_def)
      done
  qed
qed

lemma Calculate_exact:
  assumes "list_all (well_formed_chunk p) cs"
  shows "CalculateTotalUncompressedSize p (exact_buffer (concat (map wire_chunk cs)))
           = original_total cs"
proof -
  define b where "b = exact_buffer (concat (map wire_chunk cs))"
  have wf: "\<forall>hp \<in> set cs. length (snd hp) = unat (compressedSize (fst hp)) + 1"
    using assms by (simp add: list_all_iff well_formed_chunk_def)
  have "CalculateTotalUncompressedSize_loop p b (length ([]::byte list)) 0 =
        CalculateTotalUncompressedSize_loop p b (length (buffer b)) (0 + original_total cs)"
    by (rule Calculate_chunks [OF wf]) (simp_all add: b_def exact_buffer_def)
  moreover have "CalculateTotalUncompressedSize_loop p b (length (buffer b)) (0 + original_total cs)
        = original_total cs"
    by (subst CalculateTotalUncompressedSize_loop.simps) (simp add: b_def exact_buffer_def)
  ultimately show ?thesis
    by (simp add: CalculateTotalUncompressedSize_def b_def)
qed

lemma Decompress_chunks:
  assumes "list_all (well_formed_chunk p) cs"
    and "buffer b = pre @ concat (map wire_chunk cs)"
    and "bufferUsed b = length (buffer b)"
    and "bufferUsed t = length (buffer t)"
    and "length (buffer t) + original_total cs \<le> bufferLength t"
    and "bufferLength t < 2 ^ 32"
  shows "DecompressBuffer_loop p b (length pre) t =
           Returned (t\<lparr>buffer := buffer t @ concat (map (\<lambda>hp. the (chunk_output p hp)) cs),
                      bufferUsed := length (buffer t)
                        + length (concat (map (\<lambda>hp. the (chunk_output p hp)) cs))\<rparr>)"
  using assms
proof (induction cs arbitrary: pre t)
  case Nil
  then show ?case
    by (subst DecompressBuffer_loop.simps) simp
next
  case (Cons hp cs)
  obtain h pl where hp: "hp = (h, pl)" by (cases hp)
  from Cons.prems(1) hp obtain out where
    pl: "length pl = unat (compressedSize h) + 1"
    and out: "chunk_output p (h, pl) = Some out"
    and fits: "length out \<le> unat (originalSize h) + 1"
    by (auto simp: well_formed_chunk_def split: option.splits)
  have buf: "buffer b = pre @ header_bytes h @ pl @ concat (map wire_chunk cs)"
    using Cons.prems(2) hp by (simp add: wire_chunk_pair)
  have room: "length (buffer t) + (unat (originalSize h) + 1) \<le> bufferLength t"
    using Cons.prems(5) hp by (simp add: original_total_Cons)
  define t' where "t' = t\<lparr>buffer := buffer t @ out, bufferUsed := length (buffer t) + length out\<rparr>"
  have step: "DecompressBuffer_loop p b (length pre) t =
              DecompressBuffer_loop p b (length pre + 4 + length pl) t'"
    unfolding t'_def
    by (rule Decompress_step [OF buf Cons.prems(3) pl out fits Cons.prems(4) room Cons.prems(6)])
  have cur: "length pre + 4 + length pl = length (pre @ wire_chunk hp)"
    using hp by (simp add: length_wire_chunk)
  have buf': "buffer b = (pre @ wire_chunk hp) @ concat (map wire_chunk cs)"
    using Cons.prems(2) by simp
  have room': "length (buffer t') + original_total cs \<le> bufferLength t'"
    using Cons.prems(5) fits hp by (simp add: t'_def original_total_Cons)
  have IH: "DecompressBuffer_loop p b (length (pre @ wire_chunk hp)) t' =
           Returned (t'\<lparr>buffer := buffer t' @ concat (map (\<lambda>hp. the (chunk_output p hp)) cs),
                      bufferUsed := length (buffer t')
                        + length (concat (map (\<lambda>hp. the (chunk_output p hp)) cs))\<rparr>)"
    using Cons.prems(1,3,6) buf' room' by (intro Cons.IH) (simp_all add: t'_def)
  show ?case
    unfolding step cur IH
    by (simp add: t'_def hp out)
qed

lemma Decompress_chunked:
  assumes wf: "list_all (well_formed_chunk p) cs"
    and buf: "buffer b = concat (map wire_chunk cs)"
    and used: "bufferUsed b = length (buffer b)"
    and ws: "RtlCompressWorkSpaceSizeXpressHuff p = (STATUS_SUCCESS, wsCompressSize, wsDecompressSize)"
    and m1: "malloc_ok p wsDecompressSize"
    and m2: "malloc_ok p (MI_Uint32 (CalculateTotalUncompressedSize p b))"
    and room: "original_total cs \<le> MI_Uint32 (CalculateTotalUncompressedSize p b)"
  shows "DecompressBuffer p b =
           Returned \<lparr>buffer = concat (map (\<lambda>hp. the (chunk_output p hp)) cs),
                     bufferLength = MI_Uint32 (CalculateTotalUncompressedSize p b),
                     bufferUsed = length (concat (map (\<lambda>hp. the (chunk_output p hp)) cs))\<rparr>"
proof -
  define T where "T = MI_Uint32 (CalculateTotalUncompressedSize p b)"
  define t where "t = \<lparr>buffer = ([]::byte list), bufferLength = T, bufferUsed = 0\<rparr>"
  have small: "T < 2 ^ 32" by (simp add: T_def MI_Uint32_def)
  have loop: "DecompressBuffer_loop p b (length ([]::byte list)) t =
           Returned (t\<lparr>buffer := buffer t @ concat (map (\<lambda>hp. the (chunk_output p hp)) cs),
                      bufferUsed := length (buffer t)
                        + length (concat (map (\<lambda>hp. the (chunk_output p hp)) cs))\<rparr>)"
    using small room buf used
    by (intro Decompress_chunks [OF wf]) (simp_all add: t_def T_def)
  have m2': "malloc_ok p T" using m2 by (simp add: T_def)
  show ?thesis
    unfolding DecompressBuffer_def Let_def T_def [symmetric]
    using loop m1 m2'
    by (simp add: ws t_def)
qed

lemma Decompress_exact:
  assumes wf: "list_all (well_formed_chunk p) cs"
    and ws: "RtlCompressWorkSpaceSizeXpressHuff p = (STATUS_SUCCESS, wsCompressSize, wsDecompressSize)"
    and m1: "malloc_ok p wsDecompressSize"
    and m2: "malloc_ok p (original_total cs)"
    and small: "original_total cs < 2 ^ 32"
  shows "DecompressBuffer p (exact_buffer (concat (map wire_chunk cs))) =
           Returned \<lparr>buffer = concat (map (\<lambda>hp. the (chunk_output p hp)) cs),
                     bufferLength = original_total cs,
                     bufferUsed = length (concat (map (\<lambda>hp. the (chunk_output p hp)) cs))\<rparr>"
proof -
  define b where "b = exact_buffer (concat (map wire_chunk cs))"
  have calc: "MI_Uint32 (CalculateTotalUncompressedSize p b) = original_total cs"
    unfolding b_def Calculate_exact [OF wf] using small by (rule MI_Uint32_id)
  have "DecompressBuffer p b =
           Returned \<lparr>buffer = concat (map (\<lambda>hp. the (chunk_output p hp)) cs),
                     bufferLength = MI_Uint32 (CalculateTotalUncompressedSize p b),
                     bufferUsed = length (concat (map (\<lambda>hp. the (chunk_output p hp)) cs))\<rparr>"
    using m2 by (intro Decompress_chunked [OF wf _ _ ws m1]) (simp_all add: calc, simp_all add: b_def exact_buffer_def)
  then show ?thesis
    unfolding calc by (simp add: b_def)
qed

subsection \<open>Writing chunks\<close>

lemma chunk_count_step:
  assumes "0 < r"
  shows "chunk_count r = chunk_count (r - min r MAX_COMPRESS_BUFFER_BLOCK) + 1"
proof (cases "r \<le> MAX_COMPRESS_BUFFER_BLOCK")
  case True
  then have m: "min r MAX_COMPRESS_BUFFER_BLOCK = r" by simp
  have "chunk_count r = 1"
  proof (cases "r = MAX_COMPRESS_BUFFER_BLOCK")
    case True
    then show ?thesis by (simp add: chunk_count_def MAX_COMPRESS_BUFFER_BLOCK_def)
  next
    case False
    with \<open>r \<le> MAX_COMPRESS_BUFFER_BLOCK\<close> have "r < MAX_COMPRESS_BUFFER_BLOCK" by simp
    with assms show ?thesis by (simp add: chunk_count_def)
  qed
  then show ?thesis by (simp add: m chunk_count_def)
next
  case False
  then have gt: "MAX_COMPRESS_BUFFER_BLOCK \<le> r"
    and m: "min r MAX_COMPRESS_BUFFER_BLOCK = MAX_COMPRESS_BUFFER_BLOCK"
    by simp_all
  have pos: "0 < MAX_COMPRESS_BUFFER_BLOCK" by (simp add: MAX_COMPRESS_BUFFER_BLOCK_def)
  have d: "r div MAX_COMPRESS_BUFFER_BLOCK
             = Suc ((r - MAX_COMPRESS_BUFFER_BLOCK) div MAX_COMPRESS_BUFFER_BLOCK)"
    using gt pos by (simp add: le_div_geq)
  have md: "r mod MAX_COMPRESS_BUFFER_BLOCK
             = (r - MAX_COMPRESS_BUFFER_BLOCK) mod MAX_COMPRESS_BUFFER_BLOCK"
    using gt by (simp add: le_mod_geq)
  show ?thesis by (simp add: m chunk_count_def d md)
qed

lemma library_fits_at:
  assumes "library_fits p" and "RtlCompressBufferProgress p src cap = (status, written)"
  shows "status = STATUS_BUFFER_TOO_SMALL \<or> status = STATUS_SUCCESS \<and> length written \<le> cap"
proof -
  from assms(1) have "fst (RtlCompressBufferProgress p src cap) = STATUS_BUFFER_TOO_SMALL
        \<or> fst (RtlCompressBufferProgress p src cap) = STATUS_SUCCESS
          \<and> length (snd (RtlCompressBufferProgress p src cap)) \<le> cap"
    unfolding library_fits_def by blast
  with assms(2) show ?thesis by simp
qed

lemma stored_form_length:
  assumes "library_fits p"
  shows "length (stored_form p chunk) \<le> length chunk"
proof -
  obtain status written where r: "RtlCompressBufferProgress p chunk (length chunk) = (status, written)"
    by (cases "RtlCompressBufferProgress p chunk (length chunk)")
  from library_fits_at [OF assms r] r show ?thesis by (auto simp: stored_form_def)
qed

lemma Compress_step:
  assumes lib: "library_fits p"
    and f_used: "bufferUsed f = length (buffer f)"
    and k: "k < length (buffer f)"
    and t_used: "bufferUsed t = length (buffer t)"
    and chunk: "chunk = take MAX_COMPRESS_BUFFER_BLOCK (drop k (buffer f))"
    and room: "length (buffer t) + length chunk + 4 \<le> bufferLength t"
    and small: "bufferLength t < 2 ^ 32"
  shows "CompressBuffer_loop p f k t =
         CompressBuffer_loop p f (k + length chunk)
           (t\<lparr>buffer := buffer t @ wire_chunk (compress_chunk p chunk),
              bufferUsed := length (buffer t) + length (wire_chunk (compress_chunk p chunk))\<rparr>)"
proof -
  have len: "length chunk = min (bufferUsed f - k) MAX_COMPRESS_BUFFER_BLOCK"
    using chunk f_used by (simp add: min.commute)
  have lt: "k < bufferUsed f" using k f_used by simp
  have chk: "\<not> bufferUsed t + min (bufferUsed f - k) MAX_COMPRESS_BUFFER_BLOCK + sizeof_CompressionHeader
               > bufferLength t"
    using room t_used len by (simp add: sizeof_CompressionHeader_def)
  have tk: "read_bytes p f k (min (bufferUsed f - k) MAX_COMPRESS_BUFFER_BLOCK) = chunk"
  proof -
    have "k + min (bufferUsed f - k) MAX_COMPRESS_BUFFER_BLOCK \<le> length (buffer f)"
      using k f_used by simp
    from read_bytes_written [OF this] show ?thesis
      using chunk f_used by (simp add: min_def)
  qed
  obtain status written where r: "RtlCompressBufferProgress p chunk (length chunk) = (status, written)"
    by (cases "RtlCompressBufferProgress p chunk (length chunk)")
  from library_fits_at [OF lib r]
  have st: "status = STATUS_BUFFER_TOO_SMALL \<or> status = STATUS_SUCCESS" by auto
  have sf: "stored_form p chunk = (if status = STATUS_BUFFER_TOO_SMALL then chunk else written)"
    by (simp add: stored_form_def r)
  have sl: "length (stored_form p chunk) \<le> length chunk" using lib by (rule stored_form_length)
  have u: "MI_Uint32 (bufferUsed t + sizeof_CompressionHeader + length (stored_form p chunk))
             = length (buffer t) + length (wire_chunk (compress_chunk p chunk))"
  proof -
    have "bufferUsed t + sizeof_CompressionHeader + length (stored_form p chunk) < 2 ^ 32"
      using sl room small t_used by (simp add: sizeof_CompressionHeader_def)
    then show ?thesis
      using t_used
      by (simp add: MI_Uint32_id length_wire_chunk compress_chunk_def sizeof_CompressionHeader_def)
  qed
  have w: "header_bytes \<lparr>originalSize = word_of_nat (length chunk) - 1,
                          compressedSize = word_of_nat (length (stored_form p chunk)) - 1\<rparr>
             @ stored_form p chunk = wire_chunk (compress_chunk p chunk)"
    by (simp add: wire_chunk_def compress_chunk_def)
  have r': "RtlCompressBufferProgress p chunk (min (bufferUsed f - k) MAX_COMPRESS_BUFFER_BLOCK)
              = (status, written)"
    using r len by simp
  show ?thesis
    apply (subst CompressBuffer_loop.simps)
    apply (simp only: lt if_True Let_def chk if_False tk r' prod.case)
    using st u w sf len t_used
    apply (auto simp add: memcpy_append)
    done
qed

lemma split_blocks_Nil: "split_blocks [] = []"
  by (subst split_blocks.simps) simp

lemma split_blocks_Cons:
  "bs \<noteq> [] \<Longrightarrow> split_blocks bs =
     take MAX_COMPRESS_BUFFER_BLOCK bs # split_blocks (drop MAX_COMPRESS_BUFFER_BLOCK bs)"
  by (subst split_blocks.simps) simp

lemma Compress_blocks:
  assumes lib: "library_fits p"
    and f_used: "bufferUsed f = length (buffer f)"
    and small: "L < 2 ^ 32"
  shows "k \<le> length (buffer f) \<Longrightarrow> bufferUsed t = length (buffer t) \<Longrightarrow> bufferLength t = L \<Longrightarrow>
         length (buffer t)
           + (4 * chunk_count (length (buffer f) - k) + (length (buffer f) - k)) \<le> L \<Longrightarrow>
         CompressBuffer_loop p f k t =
           Returned (t\<lparr>buffer := buffer t
                        @ concat (map (\<lambda>c. wire_chunk (compress_chunk p c))
                                      (split_blocks (drop k (buffer f)))),
                      bufferUsed := length (buffer t)
                        + length (concat (map (\<lambda>c. wire_chunk (compress_chunk p c))
                                              (split_blocks (drop k (buffer f)))))\<rparr>)"
proof (induction "length (buffer f) - k" arbitrary: k t rule: less_induct)
  case less
  show ?case
  proof (cases "k = length (buffer f)")
    case True
    then show ?thesis
      using f_used less.prems(2)
      by (subst CompressBuffer_loop.simps) (simp add: split_blocks_Nil)
  next
    case False
    with less.prems(1) have k: "k < length (buffer f)" by simp
    define r where "r = length (buffer f) - k"
    define chunk where "chunk = take MAX_COMPRESS_BUFFER_BLOCK (drop k (buffer f))"
    have rpos: "0 < r" using k by (simp add: r_def)
    have clen: "length chunk = min r MAX_COMPRESS_BUFFER_BLOCK"
      by (simp add: chunk_def r_def min.commute)
    have cpos: "0 < length chunk"
      using rpos by (simp add: clen MAX_COMPRESS_BUFFER_BLOCK_def)
    have cle: "length chunk \<le> r" by (simp add: clen)
    have cc: "chunk_count r = chunk_count (r - length chunk) + 1"
      using chunk_count_step [OF rpos] by (simp add: clen)
    have room: "length (buffer t) + (4 * chunk_count r + r) \<le> L"
      using less.prems(4) by (simp add: r_def)
    have small': "bufferLength t < 2 ^ 32" using small less.prems(3) by simp
    define t' where "t' = t\<lparr>buffer := buffer t @ wire_chunk (compress_chunk p chunk),
              bufferUsed := length (buffer t) + length (wire_chunk (compress_chunk p chunk))\<rparr>"
    have step: "CompressBuffer_loop p f k t = CompressBuffer_loop p f (k + length chunk) t'"
      unfolding t'_def
    proof (rule Compress_step [OF lib f_used k less.prems(2) chunk_def _ small'])
      show "length (buffer t) + length chunk + 4 \<le> bufferLength t"
        using room cc cle less.prems(3) by simp
    qed
    have sl: "length (stored_form p chunk) \<le> length chunk" using lib by (rule stored_form_length)
    have wl: "length (wire_chunk (compress_chunk p chunk)) \<le> 4 + length chunk"
      using sl by (simp add: length_wire_chunk compress_chunk_def)
    have meas: "length (buffer f) - (k + length chunk) < length (buffer f) - k"
      using cpos k by arith
    have k': "k + length chunk \<le> length (buffer f)" using cle k unfolding r_def by arith
    have rest: "length (buffer f) - (k + length chunk) = r - length chunk" unfolding r_def by arith
    have room': "length (buffer t')
           + (4 * chunk_count (length (buffer f) - (k + length chunk))
              + (length (buffer f) - (k + length chunk))) \<le> L"
      using room cc cle wl by (simp add: rest t'_def)
    have IH: "CompressBuffer_loop p f (k + length chunk) t' =
           Returned (t'\<lparr>buffer := buffer t'
                        @ concat (map (\<lambda>c. wire_chunk (compress_chunk p c))
                                      (split_blocks (drop (k + length chunk) (buffer f)))),
                      bufferUsed := length (buffer t')
                        + length (concat (map (\<lambda>c. wire_chunk (compress_chunk p c))
                                              (split_blocks (drop (k + length chunk) (buffer f)))))\<rparr>)"
      using k' room' less.prems(3)
      by (intro less.hyps [OF meas]) (simp_all add: t'_def)
    have blocks: "split_blocks (drop k (buffer f)) =
                    chunk # split_blocks (drop (k + length chunk) (buffer f))"
    proof -
      have ne: "drop k (buffer f) \<noteq> []" using k by simp
      have "drop MAX_COMPRESS_BUFFER_BLOCK (drop k (buffer f)) = drop (k + length chunk) (buffer f)"
      proof (cases "r \<le> MAX_COMPRESS_BUFFER_BLOCK")
        case True
        then have "length chunk = r" by (simp add: clen)
        with True show ?thesis by (simp add: r_def)
      next
        case False
        then have "length chunk = MAX_COMPRESS_BUFFER_BLOCK" by (simp add: clen)
        then show ?thesis by (simp add: add.commute)
      qed
      with split_blocks_Cons [OF ne] show ?thesis by (simp add: chunk_def)
    qed
    show ?thesis
      unfolding step IH blocks by (simp add: t'_def)
  qed
qed

lemma Compress_chunked:
  assumes lib: "library_fits p"
    and used: "bufferUsed f = length (buffer f)"
    and ws: "RtlCompressWorkSpaceSizeXpressHuff p = (STATUS_SUCCESS, wsCompressSize, wsDecompressSize)"
    and m1: "malloc_ok p (4 * chunk_count (length (buffer f)) + length (buffer f) + extra)"
    and m2: "malloc_ok p wsCompressSize"
    and small: "4 * chunk_count (length (buffer f)) + length (buffer f) + extra < 2 ^ 32"
  shows "CompressBuffer p f extra =
           Returned \<lparr>buffer = concat (map (\<lambda>c. wire_chunk (compress_chunk p c))
                                         (split_blocks (buffer f))),
                     bufferLength = 4 * chunk_count (length (buffer f)) + length (buffer f) + extra,
                     bufferUsed = length (concat (map (\<lambda>c. wire_chunk (compress_chunk p c))
                                                      (split_blocks (buffer f))))\<rparr>"
proof -
  define L where "L = 4 * chunk_count (length (buffer f)) + length (buffer f) + extra"
  define t where "t = \<lparr>buffer = ([]::byte list), bufferLength = L, bufferUsed = 0\<rparr>"
  have loop: "CompressBuffer_loop p f 0 t =
           Returned (t\<lparr>buffer := buffer t
                        @ concat (map (\<lambda>c. wire_chunk (compress_chunk p c))
                                      (split_blocks (drop 0 (buffer f)))),
                      bufferUsed := length (buffer t)
                        + length (concat (map (\<lambda>c. wire_chunk (compress_chunk p c))
                                              (split_blocks (drop 0 (buffer f)))))\<rparr>)"
    using small
    by (intro Compress_blocks [OF lib used, where L = L]) (simp_all add: t_def L_def)
  have len: "MI_Uint32 (sizeof_CompressionHeader
                 * (bufferUsed f div MAX_COMPRESS_BUFFER_BLOCK
                    + (if bufferUsed f mod MAX_COMPRESS_BUFFER_BLOCK \<noteq> 0 then 1 else 0))
                 + bufferUsed f + extra) = L"
    using small
    by (simp add: L_def chunk_count_def sizeof_CompressionHeader_def MI_Uint32_id used)
  have m1': "malloc_ok p L" using m1 by (simp add: L_def)
  have loop': "CompressBuffer_loop p f 0 t =
           Returned \<lparr>buffer = concat (map (\<lambda>c. wire_chunk (compress_chunk p c))
                                         (split_blocks (buffer f))),
                     bufferLength = L,
                     bufferUsed = length (concat (map (\<lambda>c. wire_chunk (compress_chunk p c))
                                                      (split_blocks (buffer f))))\<rparr>"
    using loop by (simp add: t_def)
  show ?thesis
    unfolding CompressBuffer_def Let_def len
    using loop' m1' m2
    by (simp add: ws t_def L_def [symmetric])
qed

lemma USHORT_minus_one:
  assumes "0 < n" and "n \<le> 65536"
  shows "unat (word_of_nat n - 1 :: USHORT) = n - 1"
proof -
  from assms(1) obtain m where n: "n = Suc m" by (cases n) auto
  have "unat (word_of_nat m :: USHORT) = m"
    using assms(2) n by (simp add: unat_of_nat)
  then show ?thesis by (simp add: n)
qed

lemma split_blocks_concat: "concat (split_blocks bs) = bs"
proof (induction bs rule: split_blocks.induct)
  case (1 bs)
  show ?case
  proof (cases "bs = []")
    case True
    then show ?thesis by (simp add: split_blocks_Nil)
  next
    case False
    with 1 show ?thesis by (simp add: split_blocks_Cons)
  qed
qed

lemma split_blocks_set:
  "c \<in> set (split_blocks bs) \<Longrightarrow> c \<noteq> [] \<and> length c \<le> MAX_COMPRESS_BUFFER_BLOCK"
proof (induction bs rule: split_blocks.induct)
  case (1 bs)
  show ?case
  proof (cases "bs = []")
    case True
    with 1(2) show ?thesis by (simp add: split_blocks_Nil)
  next
    case False
    with 1 show ?thesis
      by (auto simp: split_blocks_Cons MAX_COMPRESS_BUFFER_BLOCK_def)
  qed
qed

lemma library_fits_example: "library_fits example_platform"
  by (simp add: library_fits_def example_platform_def rle_compress_def)

lemma rle_count_Suc: "n \<noteq> 255 \<Longrightarrow> unat (n + 1 :: byte) = Suc (unat n)"
proof -
  assume "n \<noteq> 255"
  have "unat n \<noteq> 255"
  proof
    assume "unat n = 255"
    then have "word_of_nat (unat n) = (word_of_nat 255 :: byte)" by simp
    then have "n = 255" by simp
    with \<open>n \<noteq> 255\<close> show False by simp
  qed
  moreover have "unat n < 256" using unsigned_less [of n, where ?'a = nat] by simp
  ultimately have "unat n + 1 < 256" by simp
  then show ?thesis by (simp add: unat_word_ariths)
qed

lemma rle_decode_encode: "rle_decode (rle_encode xs) = Some xs"
proof (induction xs)
  case Nil
  show ?case by simp
next
  case (Cons x xs)
  show ?case
  proof (cases "rle_encode xs")
    case Nil
    with Cons show ?thesis by simp
  next
    case (Cons n ys)
    note outer = this
    show ?thesis
    proof (cases ys)
      case Nil
      with outer Cons.IH show ?thesis by simp
    next
      case (Cons y rest)
      with outer Cons.IH obtain r where r: "rle_decode rest = Some r"
        and xs: "xs = replicate (unat n) y @ r"
        by (auto split: option.splits)
      show ?thesis
        using outer Cons r xs by (simp add: rle_count_Suc)
    qed
  qed
qed

subsection \<open>Claims about the chunk format\<close>

lemma compress_chunk_sizes:
  assumes "c \<noteq> []" and "length c \<le> MAX_COMPRESS_BUFFER_BLOCK"
  shows "unat (originalSize (fst (compress_chunk p c))) = length c - 1"
proof -
  have "0 < length c" "length c \<le> 65536"
    using assms by (simp_all add: MAX_COMPRESS_BUFFER_BLOCK_def)
  then show ?thesis by (simp add: compress_chunk_def USHORT_minus_one)
qed

lemma compress_chunk_stored_size:
  assumes lib: "library_fits p" and "length c \<le> MAX_COMPRESS_BUFFER_BLOCK"
    and "snd (compress_chunk p c) \<noteq> []"
  shows "unat (compressedSize (fst (compress_chunk p c))) = length (snd (compress_chunk p c)) - 1"
proof -
  have "length (stored_form p c) \<le> length c" using lib by (rule stored_form_length)
  with assms(2,3) have "0 < length (stored_form p c)" "length (stored_form p c) \<le> 65536"
    by (simp_all add: MAX_COMPRESS_BUFFER_BLOCK_def compress_chunk_def)
  then show ?thesis by (simp add: compress_chunk_def USHORT_minus_one)
qed

text \<open>
  Claim C2. The header fields on the wire are the true sizes minus one. For a buffer
  whose bytes the library handles, \<^verbatim>\<open>CompressBuffer\<close> returns the chunks of the
  64 KiB blocks of its input, one after the other, each with \<open>originalSize\<close> equal to
  the block's length minus one and \<open>compressedSize\<close> equal to the stored payload's
  length minus one. For a buffer made of well-formed chunks, whatever lies in its
  allocation after them, \<^verbatim>\<open>DecompressBuffer\<close> returns what the chunks stand for when
  each field is read as the size minus one: it takes \<open>compressedSize + 1\<close> payload bytes
  and produces up to \<open>originalSize + 1\<close> bytes per chunk. The size it allocates counts
  \<open>originalSize + 1\<close> for each chunk, and then goes on counting over the rest of the
  allocation.
\<close>

theorem chunk_sizes_off_by_one:
  assumes "library_fits p"
    and "RtlCompressWorkSpaceSizeXpressHuff p = (STATUS_SUCCESS, wsCompressSize, wsDecompressSize)"
    and "malloc_ok p wsCompressSize"
    and "malloc_ok p wsDecompressSize"
    and "bufferUsed f = length (buffer f)"
    and "malloc_ok p (4 * chunk_count (length (buffer f)) + length (buffer f) + extra)"
    and "4 * chunk_count (length (buffer f)) + length (buffer f) + extra < 2 ^ 32"
    and "list_all (well_formed_chunk p) cs"
    and "buffer b = concat (map wire_chunk cs)"
    and "bufferUsed b = length (buffer b)"
    and "malloc_ok p (MI_Uint32 (CalculateTotalUncompressedSize p b))"
    and "original_total cs \<le> MI_Uint32 (CalculateTotalUncompressedSize p b)"
    and "length (buffer b) \<le> bufferLength b"
  shows "CompressBuffer p f extra =
           Returned \<lparr>buffer = concat (map (\<lambda>c. wire_chunk (compress_chunk p c))
                                         (split_blocks (buffer f))),
                     bufferLength = 4 * chunk_count (length (buffer f)) + length (buffer f) + extra,
                     bufferUsed = length (concat (map (\<lambda>c. wire_chunk (compress_chunk p c))
                                                      (split_blocks (buffer f))))\<rparr>
       \<and> (\<forall>c \<in> set (split_blocks (buffer f)).
            unat (originalSize (fst (compress_chunk p c))) = length c - 1
            \<and> (snd (compress_chunk p c) \<noteq> [] \<longrightarrow>
                 unat (compressedSize (fst (compress_chunk p c)))
                   = length (snd (compress_chunk p c)) - 1))
       \<and> CalculateTotalUncompressedSize p b =
           CalculateTotalUncompressedSize_loop p b (length (buffer b)) (original_total cs)
       \<and> DecompressBuffer p b =
           Returned \<lparr>buffer = concat (map (\<lambda>hp. the (chunk_output p hp)) cs),
                     bufferLength = MI_Uint32 (CalculateTotalUncompressedSize p b),
                     bufferUsed = length (concat (map (\<lambda>hp. the (chunk_output p hp)) cs))\<rparr>"
proof (intro conjI ballI impI)
  show "CompressBuffer p f extra =
           Returned \<lparr>buffer = concat (map (\<lambda>c. wire_chunk (compress_chunk p c))
                                         (split_blocks (buffer f))),
                     bufferLength = 4 * chunk_count (length (buffer f)) + length (buffer f) + extra,
                     bufferUsed = length (concat (map (\<lambda>c. wire_chunk (compress_chunk p c))
                                                      (split_blocks (buffer f))))\<rparr>"
    using assms(1,5,2,6,3,7) by (rule Compress_chunked)
next
  fix c assume "c \<in> set (split_blocks (buffer f))"
  then have c: "c \<noteq> []" "length c \<le> MAX_COMPRESS_BUFFER_BLOCK"
    using split_blocks_set by blast+
  then show "unat (originalSize (fst (compress_chunk p c))) = length c - 1"
    by (rule compress_chunk_sizes)
  assume "snd (compress_chunk p c) \<noteq> []"
  with assms(1) c(2)
  show "unat (compressedSize (fst (compress_chunk p c))) = length (snd (compress_chunk p c)) - 1"
    by (rule compress_chunk_stored_size)
next
  have "\<forall>hp \<in> set cs. length (snd hp) = unat (compressedSize (fst hp)) + 1"
    using assms(8) by (simp add: list_all_iff well_formed_chunk_def)
  from Calculate_chunks [OF this, of b "[]" p 0] assms(9,13)
  show "CalculateTotalUncompressedSize p b =
           CalculateTotalUncompressedSize_loop p b (length (buffer b)) (original_total cs)"
    by (simp add: CalculateTotalUncompressedSize_def)
next
  show "DecompressBuffer p b =
           Returned \<lparr>buffer = concat (map (\<lambda>hp. the (chunk_output p hp)) cs),
                     bufferLength = MI_Uint32 (CalculateTotalUncompressedSize p b),
                     bufferUsed = length (concat (map (\<lambda>hp. the (chunk_output p hp)) cs))\<rparr>"
    using assms(8,9,10,2,4,11,12) by (rule Decompress_chunked)
qed

lemma split_blocks_single: "split_blocks [x] = [[x]]"
  by (simp add: split_blocks_Cons split_blocks_Nil MAX_COMPRESS_BUFFER_BLOCK_def)

lemma compress_chunk_single:
  "compress_chunk example_platform [x] = (\<lparr>originalSize = 0, compressedSize = 0\<rparr>, [x])"
  by (simp add: compress_chunk_def stored_form_def example_platform_def rle_compress_def)

lemma header_bytes_zero: "header_bytes \<lparr>originalSize = 0, compressedSize = 0\<rparr> = [0, 0, 0, 0]"
  by (simp add: header_bytes_def USHORT_bytes_def)

lemma chunk_output_stored_single:
  "chunk_output p (\<lparr>originalSize = 0, compressedSize = 0\<rparr>, [x]) = Some [x]"
  by (simp add: chunk_output_def)

lemma Calculate_stdin_chunk:
  "CalculateTotalUncompressedSize example_platform
     \<lparr>buffer = [0, 0, 0, 0, 65], bufferLength = 8, bufferUsed = 5\<rparr> = 2"
  by (simp add: CalculateTotalUncompressedSize_def CalculateTotalUncompressedSize_loop.simps
        header_at_stdin_chunk sizeof_CompressionHeader_def)

text \<open>
  Claim C2 on the chunk of one byte: \<^verbatim>\<open>CompressBuffer\<close> stores the byte 7 under the
  header \<open>{0, 0}\<close>, and \<^verbatim>\<open>DecompressBuffer\<close> reads the header \<open>{0, 0}\<close> as one byte on
  each side, here in a buffer of eight bytes of which five are written.
\<close>

theorem chunk_sizes_off_by_one_witness:
  "library_fits example_platform
   \<and> list_all (well_formed_chunk example_platform)
        [(\<lparr>originalSize = 0, compressedSize = 0\<rparr>, [65])]
   \<and> CompressBuffer example_platform (exact_buffer [7]) 0
       = Returned \<lparr>buffer = [0, 0, 0, 0, 7], bufferLength = 5, bufferUsed = 5\<rparr>
   \<and> compress_chunk example_platform [7] = (\<lparr>originalSize = 0, compressedSize = 0\<rparr>, [7])
   \<and> CalculateTotalUncompressedSize example_platform
         \<lparr>buffer = [0, 0, 0, 0, 65], bufferLength = 8, bufferUsed = 5\<rparr> = 2
   \<and> DecompressBuffer example_platform
         \<lparr>buffer = [0, 0, 0, 0, 65], bufferLength = 8, bufferUsed = 5\<rparr>
       = Returned \<lparr>buffer = [65], bufferLength = 2, bufferUsed = 1\<rparr>"
proof -
  define b where "b = \<lparr>buffer = [0, 0, 0, 0, 65 :: byte], bufferLength = 8, bufferUsed = 5\<rparr>"
  define cs where "cs = [(\<lparr>originalSize = 0, compressedSize = 0\<rparr>, [65 :: byte])]"
  have h1: "library_fits example_platform" by (rule library_fits_example)
  have h2: "RtlCompressWorkSpaceSizeXpressHuff example_platform = (STATUS_SUCCESS, 0, 0)"
    by (simp add: example_platform_def)
  have m: "malloc_ok example_platform n" for n by (simp add: example_platform_def)
  have h5: "bufferUsed (exact_buffer [7]) = length (buffer (exact_buffer [7]))"
    by (simp add: exact_buffer_def)
  have h7: "4 * chunk_count (length (buffer (exact_buffer [7]))) + length (buffer (exact_buffer [7])) + 0
              < (2::nat) ^ 32"
    by (simp add: exact_buffer_def chunk_count_def MAX_COMPRESS_BUFFER_BLOCK_def)
  have h8: "list_all (well_formed_chunk example_platform) cs"
    by (simp add: cs_def well_formed_chunk_def chunk_output_stored_single)
  have h9: "buffer b = concat (map wire_chunk cs)"
    by (simp add: b_def cs_def wire_chunk_pair header_bytes_zero)
  have h10: "bufferUsed b = length (buffer b)" by (simp add: b_def)
  have calc: "MI_Uint32 (CalculateTotalUncompressedSize example_platform b) = 2"
    by (simp add: b_def Calculate_stdin_chunk MI_Uint32_def)
  have h12: "original_total cs \<le> MI_Uint32 (CalculateTotalUncompressedSize example_platform b)"
    by (simp add: calc) (simp add: cs_def original_total_def)
  have h13: "length (buffer b) \<le> bufferLength b" by (simp add: b_def)
  from chunk_sizes_off_by_one [OF h1 h2 m m h5 m h7 h8 h9 h10 m h12 h13]
  have "CompressBuffer example_platform (exact_buffer [7]) 0
          = Returned \<lparr>buffer = [0, 0, 0, 0, 7], bufferLength = 5, bufferUsed = 5\<rparr>"
    and "DecompressBuffer example_platform b
          = Returned \<lparr>buffer = [65], bufferLength = 2, bufferUsed = 1\<rparr>"
    by (simp_all add: calc exact_buffer_def split_blocks_single compress_chunk_single
          wire_chunk_pair header_bytes_zero chunk_count_def MAX_COMPRESS_BUFFER_BLOCK_def
          cs_def chunk_output_stored_single)
  with h1 h8 show ?thesis
    by (simp add: b_def cs_def compress_chunk_single Calculate_stdin_chunk)
qed

text \<open>
  What becomes of a block that the library compresses, with success, into exactly as
  many bytes as the block has: both header fields are equal, and \<^verbatim>\<open>DecompressBuffer\<close>
  returns the library's output in place of the block.
\<close>

lemma same_size_output_returned:
  assumes lib: "library_fits p"
    and ws: "RtlCompressWorkSpaceSizeXpressHuff p = (STATUS_SUCCESS, wsCompressSize, wsDecompressSize)"
    and m1: "malloc_ok p wsCompressSize"
    and m2: "malloc_ok p wsDecompressSize"
    and m3: "malloc_ok p (4 + length B)"
    and m4: "malloc_ok p (length B)"
    and ne: "B \<noteq> []"
    and le: "length B \<le> MAX_COMPRESS_BUFFER_BLOCK"
    and r: "RtlCompressBufferProgress p B (length B) = (STATUS_SUCCESS, written)"
    and same: "length written = length B"
  shows "\<exists>z. CompressBuffer p (exact_buffer B) 0 = Returned z
           \<and> DecompressBuffer p z =
               Returned \<lparr>buffer = written, bufferLength = length B, bufferUsed = length B\<rparr>"
proof -
  define h where "h = \<lparr>originalSize = word_of_nat (length B) - 1,
                        compressedSize = (word_of_nat (length B) - 1 :: USHORT)\<rparr>"
  have pos: "0 < length B" and le': "length B \<le> 65536"
    using ne le by (simp_all add: MAX_COMPRESS_BUFFER_BLOCK_def)
  have o: "unat (word_of_nat (length B) - 1 :: USHORT) = length B - 1"
    using pos le' by (rule USHORT_minus_one)
  have blocks: "split_blocks B = [B]"
    using ne le by (simp add: split_blocks_Cons split_blocks_Nil)
  have chunk: "compress_chunk p B = (h, written)"
    by (simp add: compress_chunk_def stored_form_def r same h_def)
  have count: "chunk_count (length B) = 1"
  proof (cases "length B = MAX_COMPRESS_BUFFER_BLOCK")
    case True
    then show ?thesis by (simp add: chunk_count_def MAX_COMPRESS_BUFFER_BLOCK_def)
  next
    case False
    with le pos show ?thesis by (simp add: chunk_count_def)
  qed
  have out: "chunk_output p (h, written) = Some written"
    using pos by (simp add: chunk_output_def h_def o same)
  have wf: "list_all (well_formed_chunk p) [(h, written)]"
    using pos by (simp add: well_formed_chunk_def out) (simp add: h_def o same)
  have total: "original_total [(h, written)] = length B"
    using pos by (simp add: original_total_def h_def o)
  have c: "CompressBuffer p (exact_buffer B) 0 = Returned (exact_buffer (wire_chunk (h, written)))"
    using Compress_chunked [OF lib _ ws _ m1, of "exact_buffer B" 0] m3 le' same
    by (simp add: exact_buffer_def blocks chunk count length_wire_chunk)
  have d: "DecompressBuffer p (exact_buffer (wire_chunk (h, written))) =
             Returned \<lparr>buffer = written, bufferLength = length B, bufferUsed = length B\<rparr>"
    using Decompress_exact [OF wf ws m2] m4 le'
    by (simp add: total out same)
  from c d show ?thesis by blast
qed


subsection \<open>The round trip when a successful compression is shorter than its input\<close>

text \<open>
  With a library whose successful output is never empty and never as long as its input,
  and which decompresses its own output, \<^verbatim>\<open>DecompressBuffer\<close> gives back the bytes that
  \<^verbatim>\<open>CompressBuffer\<close> was given, provided the size it computes over the whole allocation
  of the compressed buffer can be allocated and is not less than the size of those bytes.
\<close>

lemma library_inverts_at:
  assumes "library_inverts p"
    and "RtlCompressBufferProgress p src (length src) = (STATUS_SUCCESS, written)"
  shows "written \<noteq> []" and "length written < length src"
    and "RtlDecompressBufferProgress p written (length src) = (STATUS_SUCCESS, src)"
  using assms unfolding library_inverts_def by blast+

lemma compress_chunk_restores:
  assumes lib: "library_fits p" and inv: "library_inverts p"
    and ne: "c \<noteq> []" and le: "length c \<le> MAX_COMPRESS_BUFFER_BLOCK"
  shows "well_formed_chunk p (compress_chunk p c) \<and> chunk_output p (compress_chunk p c) = Some c"
proof -
  have pos: "0 < length c" and le': "length c \<le> 65536"
    using ne le by (simp_all add: MAX_COMPRESS_BUFFER_BLOCK_def)
  have o: "unat (word_of_nat (length c) - 1 :: USHORT) = length c - 1"
    using pos le' by (rule USHORT_minus_one)
  obtain status written where r: "RtlCompressBufferProgress p c (length c) = (status, written)"
    by (cases "RtlCompressBufferProgress p c (length c)")
  from library_fits_at [OF lib r]
  consider "status = STATUS_BUFFER_TOO_SMALL" | "status = STATUS_SUCCESS" by auto
  then show ?thesis
  proof cases
    case 1
    then have sf: "stored_form p c = c" by (simp add: stored_form_def r)
    show ?thesis
      using pos by (simp add: well_formed_chunk_def chunk_output_def compress_chunk_def sf o)
  next
    case 2
    then have sf: "stored_form p c = written" by (simp add: stored_form_def r)
    from r 2 have r': "RtlCompressBufferProgress p c (length c) = (STATUS_SUCCESS, written)"
      by simp
    note w = library_inverts_at [OF inv r']
    have wpos: "0 < length written" using w(1) by simp
    have wle: "length written \<le> 65536" using w(2) le' by simp
    have cw: "unat (word_of_nat (length written) - 1 :: USHORT) = length written - 1"
      using wpos wle by (rule USHORT_minus_one)
    have neq: "(word_of_nat (length c) - 1 :: USHORT) \<noteq> word_of_nat (length written) - 1"
    proof
      assume "(word_of_nat (length c) - 1 :: USHORT) = word_of_nat (length written) - 1"
      then have "unat (word_of_nat (length c) - 1 :: USHORT)
                   = unat (word_of_nat (length written) - 1 :: USHORT)" by (rule arg_cong)
      then have "length c - 1 = length written - 1" unfolding o cw .
      with w(2) wpos show False by arith
    qed
    have cap: "Suc (unat (word_of_nat (length c) - 1 :: USHORT)) = length c"
      using o pos by simp
    show ?thesis
      using wpos
      by (simp add: well_formed_chunk_def chunk_output_def compress_chunk_def sf neq cap cw w(3))
  qed
qed

lemma CompressBuffer_DecompressBuffer_restores:
  assumes lib: "library_fits p" and inv: "library_inverts p"
    and ws: "RtlCompressWorkSpaceSizeXpressHuff p = (STATUS_SUCCESS, wsCompressSize, wsDecompressSize)"
    and m1: "malloc_ok p wsCompressSize"
    and m2: "malloc_ok p wsDecompressSize"
    and m3: "malloc_ok p (4 * chunk_count (length B) + length B)"
    and small: "4 * chunk_count (length B) + length B < 2 ^ 32"
  shows "\<exists>z. CompressBuffer p (exact_buffer B) 0 = Returned z
           \<and> (malloc_ok p (MI_Uint32 (CalculateTotalUncompressedSize p z))
                \<and> length B \<le> MI_Uint32 (CalculateTotalUncompressedSize p z)
              \<longrightarrow> DecompressBuffer p z =
                    Returned \<lparr>buffer = B,
                              bufferLength = MI_Uint32 (CalculateTotalUncompressedSize p z),
                              bufferUsed = length B\<rparr>)"
proof -
  define cs where "cs = map (compress_chunk p) (split_blocks B)"
  define z where "z = \<lparr>buffer = concat (map wire_chunk cs),
                        bufferLength = 4 * chunk_count (length B) + length B,
                        bufferUsed = length (concat (map wire_chunk cs))\<rparr>"
  have blocks: "c \<noteq> [] \<and> length c \<le> MAX_COMPRESS_BUFFER_BLOCK" if "c \<in> set (split_blocks B)" for c
    using that by (rule split_blocks_set)
  have each: "well_formed_chunk p (compress_chunk p c) \<and> chunk_output p (compress_chunk p c) = Some c"
    if "c \<in> set (split_blocks B)" for c
    using blocks [OF that] compress_chunk_restores [OF lib inv] by blast
  have wf: "list_all (well_formed_chunk p) cs"
    using each by (simp add: cs_def list_all_iff)
  have outs: "map (\<lambda>hp. the (chunk_output p hp)) cs = split_blocks B"
    unfolding cs_def map_map using each by (intro map_idI) simp
  have total: "original_total cs = length B"
  proof -
    have "map (\<lambda>hp. unat (originalSize (fst hp)) + 1) cs = map length (split_blocks B)"
      unfolding cs_def map_map
    proof (rule map_cong [OF refl])
      fix c assume "c \<in> set (split_blocks B)"
      from blocks [OF this] compress_chunk_sizes [of c p]
      show "((\<lambda>hp. unat (originalSize (fst hp)) + 1) \<circ> compress_chunk p) c = length c"
        by simp
    qed
    then have "original_total cs = length (concat (split_blocks B))"
      by (simp add: original_total_def length_concat)
    then show ?thesis by (simp add: split_blocks_concat)
  qed
  have c: "CompressBuffer p (exact_buffer B) 0 = Returned z"
    using Compress_chunked [OF lib _ ws _ m1, of "exact_buffer B" 0] m3 small
    by (simp add: exact_buffer_def z_def cs_def comp_def)
  have d: "DecompressBuffer p z =
                    Returned \<lparr>buffer = B,
                              bufferLength = MI_Uint32 (CalculateTotalUncompressedSize p z),
                              bufferUsed = length B\<rparr>"
    if "malloc_ok p (MI_Uint32 (CalculateTotalUncompressedSize p z))"
      and "length B \<le> MI_Uint32 (CalculateTotalUncompressedSize p z)"
  proof -
    have "DecompressBuffer p z =
           Returned \<lparr>buffer = concat (map (\<lambda>hp. the (chunk_output p hp)) cs),
                     bufferLength = MI_Uint32 (CalculateTotalUncompressedSize p z),
                     bufferUsed = length (concat (map (\<lambda>hp. the (chunk_output p hp)) cs))\<rparr>"
      using that total by (intro Decompress_chunked [OF wf _ _ ws m2]) (simp_all add: z_def)
    then show ?thesis by (simp add: outs split_blocks_concat)
  qed
  from c d show ?thesis by blast
qed

lemma library_fits_strict: "library_fits strict_platform"
  by (simp add: library_fits_def strict_platform_def example_platform_def rle_compress_strict_def)

lemma rle_encode_Nil_iff: "rle_encode xs = [] \<longleftrightarrow> xs = []"
  by (cases xs) (auto split: list.splits)

lemma library_inverts_strict: "library_inverts strict_platform"
  by (auto simp: library_inverts_def strict_platform_def example_platform_def
        rle_compress_strict_def rle_decompress_def rle_decode_encode rle_encode_Nil_iff
        split: if_splits)

lemma CompressBuffer_strict_example:
  "CompressBuffer strict_platform (exact_buffer [7, 7, 7, 7]) 0
     = Returned \<lparr>buffer = [3, 0, 1, 0, 4, 7], bufferLength = 8, bufferUsed = 6\<rparr>"
proof -
  have ws: "RtlCompressWorkSpaceSizeXpressHuff strict_platform = (STATUS_SUCCESS, 0, 0)"
    "malloc_ok strict_platform = (\<lambda>n. True)"
    by (simp_all add: strict_platform_def example_platform_def)
  have blocks: "split_blocks [7, 7, 7, 7] = [[7, 7, 7, 7]]"
    by (simp add: split_blocks_Cons split_blocks_Nil MAX_COMPRESS_BUFFER_BLOCK_def)
  have chunk: "compress_chunk strict_platform [7, 7, 7, 7]
                 = (\<lparr>originalSize = 3, compressedSize = 1\<rparr>, [4, 7])"
    by (simp add: compress_chunk_def stored_form_def strict_platform_def
          rle_compress_strict_def)
  have hb: "header_bytes \<lparr>originalSize = 3, compressedSize = 1\<rparr> = [3, 0, 1, 0]"
    by (simp add: header_bytes_def USHORT_bytes_def)
  from Compress_chunked [OF library_fits_strict _ ws(1), of "exact_buffer [7, 7, 7, 7]" 0]
  show ?thesis
    by (simp add: ws(2) exact_buffer_def chunk_count_def MAX_COMPRESS_BUFFER_BLOCK_def
          blocks chunk wire_chunk_pair hb)
qed

lemma restores_example:
  "DecompressBuffer strict_platform
     \<lparr>buffer = [3, 0, 1, 0, 4, 7], bufferLength = 8, bufferUsed = 6\<rparr>
     = Returned \<lparr>buffer = [7, 7, 7, 7], bufferLength = 5, bufferUsed = 4\<rparr>"
proof -
  define z where "z = \<lparr>buffer = [3, 0, 1, 0, 4, 7 :: byte], bufferLength = 8, bufferUsed = 6\<rparr>"
  have ws: "RtlCompressWorkSpaceSizeXpressHuff strict_platform = (STATUS_SUCCESS, 0, 0)"
    and m: "malloc_ok strict_platform n" for n
    by (simp_all add: strict_platform_def example_platform_def)
  have hd: "header_at strict_platform z 0 = \<lparr>originalSize = 3, compressedSize = 1\<rparr>"
    "header_at strict_platform z 6 = \<lparr>originalSize = 0, compressedSize = 0\<rparr>"
    by (simp_all add: header_at_def USHORT_at_def memory_def z_def strict_platform_def
          example_platform_def)
  have bl: "bufferLength z = 8" by (simp add: z_def)
  have calc: "MI_Uint32 (CalculateTotalUncompressedSize strict_platform z) = 5"
    by (simp add: CalculateTotalUncompressedSize_def CalculateTotalUncompressedSize_loop.simps
          hd bl sizeof_CompressionHeader_def MI_Uint32_def)
  obtain y where y: "CompressBuffer strict_platform (exact_buffer [7, 7, 7, 7]) 0 = Returned y"
    and r: "malloc_ok strict_platform (MI_Uint32 (CalculateTotalUncompressedSize strict_platform y))
              \<and> length [7, 7, 7, 7 :: byte]
                    \<le> MI_Uint32 (CalculateTotalUncompressedSize strict_platform y)
            \<longrightarrow> DecompressBuffer strict_platform y =
                  Returned \<lparr>buffer = [7, 7, 7, 7],
                            bufferLength = MI_Uint32 (CalculateTotalUncompressedSize strict_platform y),
                            bufferUsed = length [7, 7, 7, 7 :: byte]\<rparr>"
    using CompressBuffer_DecompressBuffer_restores
            [OF library_fits_strict library_inverts_strict ws m m m, of "[7, 7, 7, 7]"]
    by (auto simp: chunk_count_def MAX_COMPRESS_BUFFER_BLOCK_def)
  from y have "y = z" by (simp add: CompressBuffer_strict_example z_def)
  with r m show ?thesis by (simp add: calc) (simp add: z_def)
qed

end
